theory Spec2Isabelle
  imports Main
begin

section \<open>MetronomiQ: tempo model, input validator and playback toggle\<close>

text \<open>
  A shallow embedding of \<^verbatim>\<open>src/main.py\<close>. Python integers are \<open>int\<close>. A Python string
  that the user types or that \<^verbatim>\<open>str\<close> produces is a list of code points (\<open>unicode\<close>); the
  string literals of the source that are only shown in a label are \<open>string\<close>. A raised
  exception is a value of \<open>error\<close> on the left of a sum, and the one loop that may run forever,
  the loop of \<^verbatim>\<open>TempoValidator.fixup\<close>, is a partial function whose value \<open>None\<close> stands for
  not returning.
\<close>

subsection \<open>Python's \<^verbatim>\<open>str\<close> and \<^verbatim>\<open>int\<close> on decimal strings\<close>

datatype error = ValueError | IndexError | ZeroDivisionError

type_synonym unicode = "nat list"

text \<open>The code points of a literal.\<close>

definition codes :: "string \<Rightarrow> unicode" where
  "codes s = map of_char s"

text \<open>
  \<open>py_str\<close> is \<^verbatim>\<open>str(n)\<close> for an integer: a minus sign for a negative number, then the decimal
  digits without leading zeros.
\<close>

definition digit_char :: "nat \<Rightarrow> nat" where
  "digit_char d = codes ''0123456789'' ! d"

fun dec_digits :: "nat \<Rightarrow> unicode" where
  "dec_digits n = (if n < 10 then [digit_char n] else dec_digits (n div 10) @ [digit_char (n mod 10)])"

declare dec_digits.simps [simp del]

definition py_str :: "int \<Rightarrow> unicode" where
  "py_str n = (if n < 0 then of_char (CHR ''-'') # dec_digits (nat (- n)) else dec_digits (nat n))"

text \<open>
  \<open>py_int\<close> is \<^verbatim>\<open>int(s)\<close> for a string, as CPython's \<^verbatim>\<open>PyLong_FromUnicodeObject\<close> reads it in
  base 10. Whitespace at both ends is dropped: the six ASCII characters of C's \<^verbatim>\<open>isspace\<close>
  and the Unicode whitespace above ASCII (the separators \<open>0x1C\<close> to \<open>0x1F\<close> are not dropped).
  One ASCII sign may follow. Then come decimal digits of any script (the characters of Unicode's
  category Nd, which stand in runs of ten from a zero; the table is that of Unicode 14, which
  Python 3.11 carries), where single ASCII underscores may separate digits. Anything else raises
  \<^verbatim>\<open>ValueError\<close>. The interpreter's configurable limit on the number of digits of a
  conversion is not modelled.
\<close>

definition decimal_zeros :: "nat list" where
  "decimal_zeros =
     [0x0030, 0x0660, 0x06F0, 0x07C0, 0x0966, 0x09E6, 0x0A66, 0x0AE6,
      0x0B66, 0x0BE6, 0x0C66, 0x0CE6, 0x0D66, 0x0DE6, 0x0E50, 0x0ED0,
      0x0F20, 0x1040, 0x1090, 0x17E0, 0x1810, 0x1946, 0x19D0, 0x1A80,
      0x1A90, 0x1B50, 0x1BB0, 0x1C40, 0x1C50, 0xA620, 0xA8D0, 0xA900,
      0xA9D0, 0xA9F0, 0xAA50, 0xABF0, 0xFF10, 0x104A0, 0x10D30, 0x11066,
      0x110F0, 0x11136, 0x111D0, 0x112F0, 0x11450, 0x114D0, 0x11650, 0x116C0,
      0x11730, 0x118E0, 0x11950, 0x11C50, 0x11D50, 0x11DA0, 0x16A60, 0x16AC0,
      0x16B50, 0x1D7CE, 0x1D7D8, 0x1D7E2, 0x1D7EC, 0x1D7F6, 0x1E140, 0x1E2F0,
      0x1E950, 0x1FBF0]"

definition decimal :: "nat \<Rightarrow> nat option" where
  "decimal c = map_option (\<lambda>z. c - z) (find (\<lambda>z. z \<le> c \<and> c < z + 10) decimal_zeros)"

definition is_space :: "nat \<Rightarrow> bool" where
  "is_space c \<longleftrightarrow> c \<in> set
     [0x0009, 0x000A, 0x000B, 0x000C, 0x000D, 0x0020, 0x0085, 0x00A0,
      0x1680, 0x2000, 0x2001, 0x2002, 0x2003, 0x2004, 0x2005, 0x2006,
      0x2007, 0x2008, 0x2009, 0x200A, 0x2028, 0x2029, 0x202F, 0x205F,
      0x3000]"

definition strip :: "unicode \<Rightarrow> unicode" where
  "strip s = rev (dropWhile is_space (rev (dropWhile is_space s)))"

fun parse_digits :: "nat \<Rightarrow> unicode \<Rightarrow> nat option" where
  "parse_digits acc [] = Some acc"
| "parse_digits acc (c # cs) =
     (case decimal c of
        Some d \<Rightarrow> parse_digits (10 * acc + d) cs
      | None \<Rightarrow>
          if c = of_char (CHR ''_'') then
            (case cs of
               [] \<Rightarrow> None
             | c' # cs' \<Rightarrow>
                 (case decimal c' of
                    Some d \<Rightarrow> parse_digits (10 * acc + d) cs'
                  | None \<Rightarrow> None))
          else None)"

definition parse_number :: "unicode \<Rightarrow> nat option" where
  "parse_number s =
     (case s of
        [] \<Rightarrow> None
      | c # cs \<Rightarrow> (case decimal c of Some d \<Rightarrow> parse_digits d cs | None \<Rightarrow> None))"

definition py_int :: "unicode \<Rightarrow> error + int" where
  "py_int s =
     (case strip s of
        [] \<Rightarrow> Inl ValueError
      | c # cs \<Rightarrow>
          (case (if c = of_char (CHR ''-'') then map_option (\<lambda>m. - int m) (parse_number cs)
                 else if c = of_char (CHR ''+'') then map_option int (parse_number cs)
                 else map_option int (parse_number (c # cs))) of
             None \<Rightarrow> Inl ValueError
           | Some n \<Rightarrow> Inr n))"

subsection \<open>The validator of the line edit\<close>

text \<open>
  \<^verbatim>\<open>TempoValidator\<close> is a \<^verbatim>\<open>QIntValidator\<close>: it carries the two bounds that
  \<^verbatim>\<open>bottom()\<close> and \<^verbatim>\<open>top()\<close> return.
\<close>

record tempo_validator =
  bottom_v :: int
  top_v :: int

text \<open>
  \<^verbatim>\<open>TempoValidator.fixup\<close>. \<open>fixup_loop\<close> is its \<^verbatim>\<open>while\<close> loop: the condition parses
  the string, which may raise, and the body replaces the string by the decimal string of a bound.
  The last argument is not in the source: it counts the replacements made so far, and
  \<open>fixup_run\<close> returns it beside the string. \<open>fixup\<close> is the method itself.
\<close>

partial_function (option) fixup_loop :: "int \<Rightarrow> int \<Rightarrow> unicode \<Rightarrow> nat \<Rightarrow> (error + unicode \<times> nat) option" where
  "fixup_loop b t s k =
     (case py_int s of
        Inl e \<Rightarrow> Some (Inl e)
      | Inr n \<Rightarrow>
          if b \<le> n \<and> n \<le> t then Some (Inr (s, k))
          else fixup_loop b t (if n < b then py_str b else py_str t) (Suc k))"

declare fixup_loop.simps [code]

definition fixup_run :: "tempo_validator \<Rightarrow> unicode \<Rightarrow> (error + unicode \<times> nat) option" where
  "fixup_run v s = (let b = bottom_v v in fixup_loop b (top_v v) (if s = [] then py_str b else s) 0)"

definition fixup :: "tempo_validator \<Rightarrow> unicode \<Rightarrow> (error + unicode) option" where
  "fixup v s = map_option (map_sum id fst) (fixup_run v s)"

subsection \<open>The tempo table\<close>

text \<open>
  \<open>py_range\<close> is \<^verbatim>\<open>list(range(start, stop, step))\<close>. A step of zero raises in Python and does
  not occur in the source.
\<close>

definition py_range :: "int \<Rightarrow> int \<Rightarrow> int \<Rightarrow> int list" where
  "py_range start stop step =
     (if 0 < step then map (\<lambda>i. start + int i * step) [0 ..< nat ((stop - start + step - 1) div step)]
      else map (\<lambda>i. start + int i * step) [0 ..< nat ((start - stop - step - 1) div (- step))])"

definition tempi :: "int list" where
  "tempi = py_range 40 61 2 @ py_range 63 73 3 @ py_range 76 121 4 @
           py_range 126 145 6 @ py_range 152 209 8"

text \<open>
  Indexing a Python list: a negative index counts from the end, and an index outside
  \<open>[-len, len)\<close> raises \<^verbatim>\<open>IndexError\<close>.
\<close>

definition py_getitem :: "'a list \<Rightarrow> int \<Rightarrow> error + 'a" where
  "py_getitem xs i =
     (if 0 \<le> i \<and> i < int (length xs) then Inr (xs ! nat i)
      else if - int (length xs) \<le> i \<and> i < 0 then Inr (xs ! nat (int (length xs) + i))
      else Inl IndexError)"

text \<open>
  \<^verbatim>\<open>bisect.bisect_left(a, x)\<close> of the standard library: binary search for the leftmost
  insertion point, between \<open>lo = 0\<close> and \<open>hi = len(a)\<close>.
\<close>

function bisect_left_loop :: "int list \<Rightarrow> int \<Rightarrow> nat \<Rightarrow> nat \<Rightarrow> nat" where
  "bisect_left_loop a x lo hi =
     (if lo < hi then
        (let mid = (lo + hi) div 2 in
         if a ! mid < x then bisect_left_loop a x (mid + 1) hi
         else bisect_left_loop a x lo mid)
      else lo)"
  by pat_completeness auto
termination
  by (relation "measure (\<lambda>(a, x, lo, hi). hi - lo)") auto

declare bisect_left_loop.simps [simp del]

definition bisect_left :: "int list \<Rightarrow> int \<Rightarrow> nat" where
  "bisect_left a x = bisect_left_loop a x 0 (length a)"

subsection \<open>The window's state\<close>

datatype mode = Maelzel | Precise

text \<open>\<^verbatim>\<open>__Mode.__str__\<close>.\<close>

fun mode_str :: "mode \<Rightarrow> string" where
  "mode_str Maelzel = ''Maelzel'' @ [CHR 0x27] @ ''s metronome''"
| "mode_str Precise = ''Precise tempo''"

text \<open>
  The fields of \<^verbatim>\<open>Metronome\<close> that its slots read or write. A widget is represented by the
  properties the slots touch: the slider by its range, value and flags (its two end labels share
  its visibility), the line edit by its text and flags (its prompt shares its visibility), a
  label or button by its text, the \<^verbatim>\<open>QTimeLine\<close> by its update interval and whether it runs.
\<close>

record metronome =
  current_tempo :: int
  playing :: bool
  mode :: mode
  slider_minimum :: int
  slider_maximum :: int
  slider_value :: int
  slider_enabled :: bool
  slider_visible :: bool
  tempo_input_text :: unicode
  tempo_input_enabled :: bool
  tempo_input_visible :: bool
  tempo_indicator :: unicode
  traditional_marking :: string
  mode_indicator :: string
  start_stop_button :: string
  timer_update_interval :: int
  timer_running :: bool

text \<open>\<^verbatim>\<open>Metronome.__get_marking\<close>, with the strings as the source spells them.\<close>

definition get_marking :: "metronome \<Rightarrow> string" where
  "get_marking s =
     (if current_tempo s \<le> 24 then ''Larghissimo''
      else if current_tempo s \<le> 40 then ''Grave''
      else if current_tempo s \<le> 60 then ''Largo''
      else if current_tempo s \<le> 66 then ''Largetto''
      else if current_tempo s \<le> 76 then ''Adagio''
      else if current_tempo s \<le> 108 then ''Andante''
      else if current_tempo s \<le> 120 then ''Moderato''
      else if current_tempo s \<le> 168 then ''Allegro''
      else if current_tempo s \<le> 200 then ''Presto''
      else ''Prestissimo'')"

text \<open>
  \<^verbatim>\<open>Metronome.__update_tempo\<close>, the slot of the slider's \<^verbatim>\<open>valueChanged\<close> and of the line edit's
  \<^verbatim>\<open>editingFinished\<close>, together with \<^verbatim>\<open>QSlider.setValue\<close>. Qt's \<^verbatim>\<open>setValue\<close> bounds the
  value to \<open>[minimum, maximum]\<close>, returns when this is the current value, and otherwise stores it
  and emits \<^verbatim>\<open>valueChanged\<close>, which runs the slot again inside the call. \<open>tempo_read\<close>
  is the right-hand side of the assignment in the \<^verbatim>\<open>precise\<close> branch.
\<close>

definition tempo_read :: "metronome \<Rightarrow> error + int" where
  "tempo_read s =
     (if tempo_input_text s = [] then py_getitem tempi 0 else py_int (tempo_input_text s))"

definition qBound :: "int \<Rightarrow> int \<Rightarrow> int \<Rightarrow> int" where
  "qBound lo v hi = max lo (min hi v)"

function update_tempo :: "metronome \<Rightarrow> error + metronome"
  and slider_setValue :: "int \<Rightarrow> metronome \<Rightarrow> error + metronome" where
  "update_tempo s =
     (case (case mode s of
              Maelzel \<Rightarrow>
                (case py_getitem tempi (slider_value s) of
                   Inl e \<Rightarrow> Inl e
                 | Inr v \<Rightarrow> Inr (s\<lparr>current_tempo := v, tempo_input_text := py_str v\<rparr>))
            | Precise \<Rightarrow>
                (case tempo_read s of
                   Inl e \<Rightarrow> Inl e
                 | Inr v \<Rightarrow> slider_setValue (int (bisect_left tempi v)) (s\<lparr>current_tempo := v\<rparr>))) of
        Inl e \<Rightarrow> Inl e
      | Inr s' \<Rightarrow>
          Inr (s'\<lparr>tempo_indicator := py_str (current_tempo s'),
                  traditional_marking := get_marking s'\<rparr>))"
| "slider_setValue v s =
     (let v' = qBound (slider_minimum s) v (slider_maximum s) in
      if v' = slider_value s then Inr s
      else update_tempo (s\<lparr>slider_value := v'\<rparr>))"
  by pat_completeness auto
termination
proof (relation "measure (\<lambda>x. case x of
      Inl s \<Rightarrow>
        (if mode s = Precise \<and>
            (case tempo_read s of Inl e \<Rightarrow> False
             | Inr v \<Rightarrow> qBound (slider_minimum s) (int (bisect_left tempi v)) (slider_maximum s) \<noteq> slider_value s)
         then 3 else 1)
    | Inr (v, s) \<Rightarrow>
        (if qBound (slider_minimum s) v (slider_maximum s) = slider_value s then 0
         else if mode s = Precise \<and>
            (case tempo_read s of Inl e \<Rightarrow> False
             | Inr w \<Rightarrow> qBound (slider_minimum s) (int (bisect_left tempi w)) (slider_maximum s)
                          \<noteq> qBound (slider_minimum s) v (slider_maximum s))
         then 4 else 2))", goal_cases)
  case 1
  show ?case by simp
next
  case (2 s v)
  have "tempo_read (s\<lparr>current_tempo := v\<rparr>) = tempo_read s"
    by (simp add: tempo_read_def)
  with 2 show ?case by (simp split: sum.splits)
next
  case (3 v s v')
  have "tempo_read (s\<lparr>slider_value := v'\<rparr>) = tempo_read s"
    by (simp add: tempo_read_def)
  with 3 show ?case by (simp split: sum.splits)
qed

declare update_tempo.simps [simp del] slider_setValue.simps [simp del]

text \<open>\<^verbatim>\<open>Metronome.__switch_mode\<close>, the slot of the menu action.\<close>

definition switch_mode :: "metronome \<Rightarrow> error + metronome" where
  "switch_mode s =
     (case update_tempo
             (case mode s of
                Maelzel \<Rightarrow>
                  s\<lparr>mode := Precise, tempo_input_visible := True, tempo_input_enabled := True,
                    slider_enabled := False, slider_visible := False\<rparr>
              | Precise \<Rightarrow>
                  s\<lparr>mode := Maelzel, tempo_input_visible := False, tempo_input_enabled := False,
                    slider_enabled := True, slider_visible := True\<rparr>) of
        Inl e \<Rightarrow> Inl e
      | Inr s' \<Rightarrow> Inr (s'\<lparr>mode_indicator := ''Mode: '' @ mode_str (mode s')\<rparr>))"

text \<open>
  \<^verbatim>\<open>Metronome.__start_stop_metronome\<close>, the slot of the button, and its two branches:
  \<open>start_branch\<close> is the body under \<^verbatim>\<open>if not self.__playing\<close>, \<open>stop_branch\<close> the body under
  \<^verbatim>\<open>else\<close>. Python's \<^verbatim>\<open>//\<close> raises \<^verbatim>\<open>ZeroDivisionError\<close> on a zero divisor and rounds down
  otherwise, as \<open>div\<close> on \<open>int\<close> does. \<^verbatim>\<open>QTimeLine.stop\<close> leaves a timer that does not run
  as it is.
\<close>

definition start_branch :: "metronome \<Rightarrow> error + metronome" where
  "start_branch s =
     (if current_tempo s = 0 then Inl ZeroDivisionError
      else Inr (s\<lparr>start_stop_button := ''Stop'', slider_enabled := False,
                 timer_update_interval := 60000 div current_tempo s,
                 timer_running := True, playing := True\<rparr>))"

definition stop_branch :: "metronome \<Rightarrow> metronome" where
  "stop_branch s =
     s\<lparr>start_stop_button := ''Start'', slider_enabled := True,
       timer_running := False, playing := False\<rparr>"

definition start_stop_metronome :: "metronome \<Rightarrow> error + metronome" where
  "start_stop_metronome s =
     (if \<not> playing s then start_branch s else Inr (stop_branch s))"

text \<open>
  \<^verbatim>\<open>Metronome.__init__\<close> with the parts of \<^verbatim>\<open>__init_metronome\<close>, \<^verbatim>\<open>__create_indication\<close>,
  \<^verbatim>\<open>__create_controls\<close> and \<^verbatim>\<open>__init_statusbar\<close> that set the fields above. A fresh
  \<^verbatim>\<open>QSlider\<close> has the value 0, a fresh \<^verbatim>\<open>QTimeLine\<close> does not run and updates every 40 ms.
\<close>

definition metronome_init :: "error + metronome" where
  "metronome_init =
     (case py_getitem tempi 0 of
        Inl e \<Rightarrow> Inl e
      | Inr t \<Rightarrow>
          (let s = \<lparr>current_tempo = t, playing = False, mode = Maelzel,
                    slider_minimum = 0, slider_maximum = int (length tempi) - 1,
                    slider_value = 0, slider_enabled = True, slider_visible = True,
                    tempo_input_text = py_str t, tempo_input_enabled = False,
                    tempo_input_visible = False, tempo_indicator = py_str t,
                    traditional_marking = [], mode_indicator = ''Mode: '' @ mode_str Maelzel,
                    start_stop_button = ''Start'', timer_update_interval = 40,
                    timer_running = False\<rparr>
           in Inr (s\<lparr>traditional_marking := get_marking s\<rparr>)))"

subsection \<open>User events\<close>

text \<open>
  What the event loop delivers to the window. Moving the slider is \<^verbatim>\<open>setValue\<close> with the new
  position. Finishing an edit of the line edit passes the typed text through the validator
  \<^verbatim>\<open>TempoValidator(20, 300)\<close> and emits \<^verbatim>\<open>editingFinished\<close> with the repaired text in the
  widget; \<open>fixup\<close> returns a text in range as it is, so it is applied to every typed text
  here. The events are not restricted to the mode whose widget is enabled: the properties below
  hold for every sequence of events.
\<close>

datatype event = SwitchMode | SliderMoved int | EditingFinished unicode | StartStop

definition tempo_input_validator :: tempo_validator where
  "tempo_input_validator = \<lparr>bottom_v = 20, top_v = 300\<rparr>"

fun fire :: "event \<Rightarrow> metronome \<Rightarrow> (error + metronome) option" where
  "fire SwitchMode s = Some (switch_mode s)"
| "fire (SliderMoved i) s = Some (slider_setValue i s)"
| "fire (EditingFinished r) s =
     (case fixup tempo_input_validator r of
        None \<Rightarrow> None
      | Some (Inl e) \<Rightarrow> Some (Inl e)
      | Some (Inr t) \<Rightarrow> Some (update_tempo (s\<lparr>tempo_input_text := t\<rparr>)))"
| "fire StartStop s = Some (start_stop_metronome s)"

inductive reachable :: "metronome \<Rightarrow> bool" where
  reachable_init: "metronome_init = Inr s \<Longrightarrow> reachable s"
| reachable_fire: "reachable s \<Longrightarrow> fire e s = Some (Inr s') \<Longrightarrow> reachable s'"

text \<open>A sequence of events, delivered one after the other; it stops at the first error.\<close>

fun run :: "event list \<Rightarrow> metronome \<Rightarrow> (error + metronome) option" where
  "run [] s = Some (Inr s)"
| "run (e # es) s =
     (case fire e s of
        None \<Rightarrow> None
      | Some (Inl x) \<Rightarrow> Some (Inl x)
      | Some (Inr s') \<Rightarrow> run es s')"

subsection \<open>Auxiliary notions for the statements\<close>

text \<open>
  The marking table as the specification writes it (upper bounds inclusive, ascending), to
  compare \<open>get_marking\<close> with.
\<close>

definition table_marking :: "int \<Rightarrow> string" where
  "table_marking t =
     (if t \<le> 24 then ''Larghissimo''
      else if t \<le> 40 then ''Grave''
      else if t \<le> 60 then ''Largo''
      else if t \<le> 66 then ''Larghetto''
      else if t \<le> 76 then ''Adagio''
      else if t \<le> 108 then ''Andante''
      else if t \<le> 120 then ''Moderato''
      else if t \<le> 168 then ''Allegro''
      else if t \<le> 200 then ''Presto''
      else ''Prestissimo'')"

text \<open>
  The position the slider takes when \<open>update_tempo\<close> sets it for a tempo \<open>t\<close>:
  \<^verbatim>\<open>bisect_left\<close> on the table, bounded by \<^verbatim>\<open>setValue\<close> to the range that
  \<^verbatim>\<open>__create_controls\<close> gives the slider, \<open>0\<close> to \<open>len(tempi) - 1\<close>.
\<close>

definition slider_position :: "int \<Rightarrow> int" where
  "slider_position t = qBound 0 (int (bisect_left tempi t)) (int (length tempi) - 1)"

text \<open>
  The relation between the fields that every reachable state satisfies: the slider keeps the
  range of the table; in Maelzel mode the tempo is the table entry under the slider and the
  line edit shows it; in Precise mode the tempo is what the line edit reads as, it is between
  20 and 300, and the slider stands at the position for it; the timer runs exactly while
  \<open>playing\<close> is set.
\<close>

definition consistent :: "metronome \<Rightarrow> bool" where
  "consistent s =
     (slider_minimum s = 0 \<and> slider_maximum s = int (length tempi) - 1 \<and>
      0 \<le> slider_value s \<and> slider_value s \<le> slider_maximum s \<and>
      timer_running s = playing s \<and>
      (case mode s of
         Maelzel \<Rightarrow>
           py_getitem tempi (slider_value s) = Inr (current_tempo s) \<and>
           tempo_input_text s = py_str (current_tempo s)
       | Precise \<Rightarrow>
           tempo_read s = Inr (current_tempo s) \<and>
           20 \<le> current_tempo s \<and> current_tempo s \<le> 300 \<and>
           slider_value s = slider_position (current_tempo s)))"

section \<open>Properties\<close>

subsection \<open>Decimal strings read back as the number they were written from\<close>

lemma digit_char_eq:
  assumes "d < 10"
  shows "digit_char d = 48 + d"
proof -
  from assms have "d \<in> {0, 1, 2, 3, 4, 5, 6, 7, 8, 9}" by auto
  then show ?thesis by (auto simp: digit_char_def codes_def)
qed

lemma decimal_ascii:
  assumes "48 \<le> c" "c \<le> 57"
  shows "decimal c = Some (c - 48)"
  using assms by (simp add: decimal_def decimal_zeros_def)

lemma ascii_digit_not_space:
  assumes "48 \<le> c" "c \<le> 57"
  shows "\<not> is_space c"
  using assms by (auto simp: is_space_def)

lemma dec_digits_all: "c \<in> set (dec_digits n) \<Longrightarrow> 48 \<le> c \<and> c \<le> 57"
proof (induction n rule: dec_digits.induct)
  case (1 n)
  show ?case
  proof (cases "n < 10")
    case True
    with "1.prems" show ?thesis by (subst (asm) dec_digits.simps) (simp add: digit_char_eq)
  next
    case False
    with "1.prems" have "c \<in> set (dec_digits (n div 10)) \<or> c = digit_char (n mod 10)"
      by (subst (asm) dec_digits.simps) auto
    with False "1.IH" show ?thesis by (auto simp: digit_char_eq)
  qed
qed

lemma dec_digits_nonempty: "dec_digits n \<noteq> []"
  by (subst dec_digits.simps) simp

lemma parse_digits_ascii:
  "\<forall>c \<in> set cs. 48 \<le> c \<and> c \<le> 57 \<Longrightarrow>
   parse_digits acc cs = Some (fold (\<lambda>c a. 10 * a + (c - 48)) cs acc)"
  by (induction cs arbitrary: acc) (simp_all add: decimal_ascii)

lemma fold_dec_digits: "fold (\<lambda>c a. 10 * a + (c - 48)) (dec_digits n) 0 = n"
proof (induction n rule: dec_digits.induct)
  case (1 n)
  show ?case
  proof (cases "n < 10")
    case True
    then show ?thesis by (subst dec_digits.simps) (simp add: digit_char_eq)
  next
    case False
    have "fold (\<lambda>c a. 10 * a + (c - 48)) (dec_digits n) 0
        = 10 * fold (\<lambda>c a. 10 * a + (c - 48)) (dec_digits (n div 10)) 0
          + (digit_char (n mod 10) - 48)"
      using False by (subst dec_digits.simps) simp
    also have "\<dots> = 10 * (n div 10) + n mod 10"
      using False "1.IH" by (simp add: digit_char_eq)
    finally show ?thesis by simp
  qed
qed

lemma parse_number_dec_digits: "parse_number (dec_digits n) = Some n"
proof -
  obtain c cs where cs: "dec_digits n = c # cs"
    using dec_digits_nonempty [of n] by (cases "dec_digits n") auto
  have all: "\<forall>x \<in> set (c # cs). 48 \<le> x \<and> x \<le> 57"
    using dec_digits_all [of _ n] cs by metis
  then have "parse_number (c # cs) = Some (fold (\<lambda>c a. 10 * a + (c - 48)) (c # cs) 0)"
    by (simp add: parse_number_def parse_digits_ascii decimal_ascii)
  then show ?thesis
    using fold_dec_digits [of n] cs by simp
qed

lemma strip_id: "s \<noteq> [] \<Longrightarrow> \<not> is_space (hd s) \<Longrightarrow> \<not> is_space (last s) \<Longrightarrow> strip s = s"
proof -
  assume a: "s \<noteq> []" "\<not> is_space (hd s)" "\<not> is_space (last s)"
  then have 1: "dropWhile is_space s = s" by (cases s) auto
  from a have "rev s \<noteq> []" "\<not> is_space (hd (rev s))" by (simp_all add: hd_rev)
  then have "dropWhile is_space (rev s) = rev s" by (cases "rev s") auto
  with 1 show ?thesis by (simp add: strip_def)
qed

lemma py_int_py_str: "py_int (py_str n) = Inr n"
proof (cases "n < 0")
  case True
  let ?ds = "dec_digits (nat (- n))"
  have "last (45 # ?ds) \<in> set ?ds"
    using dec_digits_nonempty [of "nat (- n)"] by simp
  then have "\<not> is_space (last (45 # ?ds))"
    using dec_digits_all ascii_digit_not_space by blast
  then have "strip (45 # ?ds) = 45 # ?ds"
    by (intro strip_id) (simp_all add: is_space_def)
  with True show ?thesis
    by (simp add: py_int_def py_str_def parse_number_dec_digits)
next
  case False
  let ?ds = "dec_digits (nat n)"
  obtain c cs where cs: "?ds = c # cs"
    using dec_digits_nonempty [of "nat n"] by (cases ?ds) auto
  have d: "48 \<le> c \<and> c \<le> 57" "48 \<le> last ?ds \<and> last ?ds \<le> 57"
    using dec_digits_all [of _ "nat n"] cs last_in_set [of "dec_digits (nat n)"]
    by simp_all
  then have "strip ?ds = ?ds"
    using cs by (intro strip_id) (simp_all add: ascii_digit_not_space)
  moreover have "parse_number (c # cs) = Some (nat n)"
    using parse_number_dec_digits [of "nat n"] cs by simp
  ultimately show ?thesis
    using False cs d(1) by (simp add: py_int_def py_str_def)
qed

lemma fixup_loop_in_range:
  "py_int s = Inr n \<Longrightarrow> b \<le> n \<Longrightarrow> n \<le> t \<Longrightarrow> fixup_loop b t s k = Some (Inr (s, k))"
  by (subst fixup_loop.simps) simp

lemma fixup_loop_below:
  "py_int s = Inr n \<Longrightarrow> n < b \<Longrightarrow> b \<le> t \<Longrightarrow> fixup_loop b t s k = Some (Inr (py_str b, Suc k))"
  by (subst fixup_loop.simps) (simp add: fixup_loop_in_range [OF py_int_py_str])

lemma fixup_loop_above:
  "py_int s = Inr n \<Longrightarrow> t < n \<Longrightarrow> b \<le> t \<Longrightarrow> fixup_loop b t s k = Some (Inr (py_str t, Suc k))"
  by (subst fixup_loop.simps) (simp add: fixup_loop_in_range [OF py_int_py_str])

lemma fixup_loop_error:
  "py_int s = Inl e \<Longrightarrow> fixup_loop b t s k = Some (Inl e)"
  by (subst fixup_loop.simps) simp

subsection \<open>The validator's repair\<close>

lemma fixup_run_in_range:
  assumes "py_int s = Inr n" "bottom_v v \<le> n" "n \<le> top_v v"
  shows "fixup_run v s = Some (Inr (s, 0))"
proof -
  from assms(1) have "s \<noteq> []" by (auto simp: py_int_def strip_def)
  with assms show ?thesis by (simp add: fixup_run_def fixup_loop_in_range)
qed

lemma fixup_run_below:
  assumes "py_int s = Inr n" "n < bottom_v v" "bottom_v v \<le> top_v v"
  shows "fixup_run v s = Some (Inr (py_str (bottom_v v), 1))"
proof -
  from assms(1) have "s \<noteq> []" by (auto simp: py_int_def strip_def)
  with assms show ?thesis by (simp add: fixup_run_def fixup_loop_below)
qed

lemma fixup_run_above:
  assumes "py_int s = Inr n" "top_v v < n" "bottom_v v \<le> top_v v"
  shows "fixup_run v s = Some (Inr (py_str (top_v v), 1))"
proof -
  from assms(1) have "s \<noteq> []" by (auto simp: py_int_def strip_def)
  with assms show ?thesis by (simp add: fixup_run_def fixup_loop_above)
qed

lemma fixup_run_empty:
  assumes "bottom_v v \<le> top_v v"
  shows "fixup_run v [] = Some (Inr (py_str (bottom_v v), 0))"
  using assms by (simp add: fixup_run_def fixup_loop_in_range [OF py_int_py_str])

lemma fixup_run_error:
  assumes "s \<noteq> []" "py_int s = Inl e"
  shows "fixup_run v s = Some (Inl e)"
  using assms by (simp add: fixup_run_def fixup_loop_error)

text \<open>
  With the bounds the wrong way round the loop never ends on a string that parses: every
  value is outside the empty range, and each replacement parses again.
\<close>

lemma fixup_loop_no_result:
  assumes "fixup_loop b t s k = Some r"
  shows "t < b \<longrightarrow> (\<forall>n. py_int s \<noteq> Inr n)"
proof (rule fixup_loop.raw_induct
    [where P = "\<lambda>b t s k r. t < b \<longrightarrow> (\<forall>n. py_int s \<noteq> Inr n)", OF _ assms])
  fix loop :: "int \<Rightarrow> int \<Rightarrow> unicode \<Rightarrow> nat \<Rightarrow> (error + unicode \<times> nat) option"
  fix b t s k r
  assume IH: "\<And>b t s k r. loop b t s k = Some r \<Longrightarrow> t < b \<longrightarrow> (\<forall>n. py_int s \<noteq> Inr n)"
  assume body: "(case py_int s of
        Inl e \<Rightarrow> Some (Inl e)
      | Inr n \<Rightarrow>
          if b \<le> n \<and> n \<le> t then Some (Inr (s, k))
          else loop b t (if n < b then py_str b else py_str t) (Suc k)) = Some r"
  show "t < b \<longrightarrow> (\<forall>n. py_int s \<noteq> Inr n)"
  proof (intro impI allI notI)
    fix n
    assume lt: "t < b" and n: "py_int s = Inr n"
    let ?s = "if n < b then py_str b else py_str t"
    from lt have "\<not> (b \<le> n \<and> n \<le> t)" by simp
    with body n have "loop b t ?s (Suc k) = Some r" by simp
    from IH [OF this] lt have "py_int ?s \<noteq> Inr (if n < b then b else t)" by blast
    moreover have "py_int ?s = Inr (if n < b then b else t)"
      by (cases "n < b") (simp_all add: py_int_py_str)
    ultimately show False by simp
  qed
qed

lemma fixup_run_diverges:
  assumes "top_v v < bottom_v v" "s = [] \<or> py_int s = Inr n"
  shows "fixup_run v s = None" "fixup v s = None"
proof -
  let ?s = "if s = [] then py_str (bottom_v v) else s"
  obtain m where m: "py_int ?s = Inr m"
    using assms(2) py_int_py_str [of "bottom_v v"] by (cases "s = []") auto
  have "fixup_loop (bottom_v v) (top_v v) ?s 0 = None"
  proof (cases "fixup_loop (bottom_v v) (top_v v) ?s 0")
    case None
    then show ?thesis .
  next
    case (Some r)
    from fixup_loop_no_result [OF Some] assms(1) m show ?thesis by blast
  qed
  then show "fixup_run v s = None" by (simp add: fixup_run_def Let_def)
  then show "fixup v s = None" by (simp add: fixup_def)
qed

lemma py_str_20: "py_str 20 = codes ''20''"
  by (simp add: py_str_def dec_digits.simps digit_char_def codes_def)

lemma py_str_300: "py_str 300 = codes ''300''"
  by (simp add: py_str_def dec_digits.simps digit_char_def codes_def)

text \<open>
  C4. The clamp law of the validator's repair with the bounds 20 and 300: the decimal string of
  an integer below 20 becomes \<open>''20''\<close>, of an integer above 300 becomes \<open>''300''\<close>, any
  other stays as it is, and the empty string becomes \<open>''20''\<close>.
\<close>

theorem fixup_clamp_law:
  "fixup \<lparr>bottom_v = 20, top_v = 300\<rparr> (py_str n) =
     Some (Inr (if n < 20 then codes ''20'' else if 300 < n then codes ''300'' else py_str n))
   \<and> fixup \<lparr>bottom_v = 20, top_v = 300\<rparr> [] = Some (Inr (codes ''20''))"
proof -
  let ?v = "\<lparr>bottom_v = 20, top_v = 300\<rparr>"
  have p: "py_int (py_str n) = Inr n" by (rule py_int_py_str)
  have low: "n < 20 \<Longrightarrow> fixup ?v (py_str n) = Some (Inr (codes ''20''))"
    using fixup_run_below [OF p, of ?v] by (simp add: fixup_def py_str_20)
  have high: "300 < n \<Longrightarrow> fixup ?v (py_str n) = Some (Inr (codes ''300''))"
    using fixup_run_above [OF p, of ?v] by (simp add: fixup_def py_str_300)
  have mid: "\<not> n < 20 \<Longrightarrow> \<not> 300 < n \<Longrightarrow> fixup ?v (py_str n) = Some (Inr (py_str n))"
    using fixup_run_in_range [OF p, of ?v] by (simp add: fixup_def)
  have empty: "fixup ?v [] = Some (Inr (codes ''20''))"
    using fixup_run_empty [of ?v] by (simp add: fixup_def py_str_20)
  from low high mid empty show ?thesis by simp
qed

theorem fixup_clamp_law_witness:
  "fixup \<lparr>bottom_v = 20, top_v = 300\<rparr> (codes ''7'') = Some (Inr (codes ''20''))
   \<and> fixup \<lparr>bottom_v = 20, top_v = 300\<rparr> (codes ''-12'') = Some (Inr (codes ''20''))
   \<and> fixup \<lparr>bottom_v = 20, top_v = 300\<rparr> (codes ''301'') = Some (Inr (codes ''300''))
   \<and> fixup \<lparr>bottom_v = 20, top_v = 300\<rparr> (codes ''120'') = Some (Inr (codes ''120''))"
proof -
  have s: "py_str 7 = codes ''7''" "py_str (- 12) = codes ''-12''" "py_str 301 = codes ''301''"
    "py_str 120 = codes ''120''"
    by (simp_all add: py_str_def dec_digits.simps digit_char_def codes_def)
  show ?thesis
    using fixup_clamp_law [of 7] fixup_clamp_law [of "- 12"] fixup_clamp_law [of 301]
      fixup_clamp_law [of 120]
    by (simp add: s)
qed

text \<open>
  Where \<open>int\<close> draws the line: the separators \<open>0x1C\<close> to \<open>0x1F\<close> are not whitespace for it,
  a no-break space and an ideographic space are, digits of other scripts count, and an
  underscore must stand between two digits.
\<close>

lemma py_int_examples:
  "py_int [0x1C, 0x35] = Inl ValueError"
  "py_int [0x33, 0x30, 0x1F] = Inl ValueError"
  "py_int [0xA0, 0x0665, 0xFF16, 0x3000] = Inr 56"
  "py_int (codes '' +1_0 '') = Inr 10"
  "py_int (codes ''-007'') = Inr (- 7)"
  "py_int (codes ''1__0'') = Inl ValueError"
  "py_int (codes ''_1'') = Inl ValueError"
  "py_int (codes ''1_'') = Inl ValueError"
  "py_int (codes ''+ 1'') = Inl ValueError"
  "py_int (codes '' '') = Inl ValueError"
  "py_int (codes ''+'') = Inl ValueError"
  by (simp_all add: py_int_def strip_def is_space_def parse_number_def decimal_def
      decimal_zeros_def codes_def)

text \<open>
  C10. With \<open>bottom \<le> top\<close>, on a string (of any code points) that is empty or that
  \<open>int\<close> accepts, the repair returns a string, which \<open>int\<close> reads as a number within the
  bounds, after at most one replacement in its loop; on a string that is not empty and that
  \<open>int\<close> rejects, it raises the error of \<open>int\<close>.
\<close>

theorem fixup_total_on_integers:
  "(bottom_v v \<le> top_v v \<and> (s = [] \<or> (\<exists>n. py_int s = Inr n)) \<longrightarrow>
      (\<exists>r k m. fixup_run v s = Some (Inr (r, k)) \<and> k \<le> 1 \<and> fixup v s = Some (Inr r)
         \<and> py_int r = Inr m \<and> bottom_v v \<le> m \<and> m \<le> top_v v))
   \<and> (s' \<noteq> [] \<and> (\<exists>e. py_int s' = Inl e) \<longrightarrow>
        fixup_run v s' = Some (Inl ValueError) \<and> fixup v s' = Some (Inl ValueError))"
proof (rule conjI; rule impI)
  assume a: "bottom_v v \<le> top_v v \<and> (s = [] \<or> (\<exists>n. py_int s = Inr n))"
  show "\<exists>r k m. fixup_run v s = Some (Inr (r, k)) \<and> k \<le> 1 \<and> fixup v s = Some (Inr r)
         \<and> py_int r = Inr m \<and> bottom_v v \<le> m \<and> m \<le> top_v v"
  proof (cases "s = []")
    case True
    with a show ?thesis
      using fixup_run_empty [of v] py_int_py_str [of "bottom_v v"] by (simp add: fixup_def)
  next
    case False
    with a obtain n where n: "py_int s = Inr n" by blast
    consider "n < bottom_v v" | "top_v v < n" | "bottom_v v \<le> n" "n \<le> top_v v" by linarith
    then show ?thesis
    proof cases
      case 1
      with a n show ?thesis
        using fixup_run_below [of s n v] py_int_py_str [of "bottom_v v"] by (simp add: fixup_def)
    next
      case 2
      with a n show ?thesis
        using fixup_run_above [of s n v] py_int_py_str [of "top_v v"] by (simp add: fixup_def)
    next
      case 3
      with n show ?thesis
        using fixup_run_in_range [of s n v] by (simp add: fixup_def)
    qed
  qed
next
  assume b: "s' \<noteq> [] \<and> (\<exists>e. py_int s' = Inl e)"
  then obtain e where e: "py_int s' = Inl e" by blast
  have "e = ValueError"
    using e by (auto simp: py_int_def split: list.splits option.splits if_splits)
  with b e show "fixup_run v s' = Some (Inl ValueError) \<and> fixup v s' = Some (Inl ValueError)"
    using fixup_run_error [of s' e v] by (simp add: fixup_def)
qed

theorem fixup_total_on_integers_witness:
  "(20::int) \<le> 300 \<and> py_int (codes ''500'') = Inr 500
   \<and> py_int [0x0663] = Inr 3
   \<and> [0x1C, 0x35 :: nat] \<noteq> [] \<and> py_int [0x1C, 0x35] = Inl ValueError
   \<and> fixup_run \<lparr>bottom_v = 20, top_v = 300\<rparr> (codes ''500'') = Some (Inr (codes ''300'', 1))
   \<and> fixup_run \<lparr>bottom_v = 20, top_v = 300\<rparr> [0x0663] = Some (Inr (codes ''20'', 1))
   \<and> fixup \<lparr>bottom_v = 20, top_v = 300\<rparr> [0x1C, 0x35] = Some (Inl ValueError)"
proof -
  have p: "py_int (codes ''500'') = Inr 500" "py_int [0x0663] = Inr 3"
    "py_int [0x1C, 0x35] = Inl ValueError"
    by (simp_all add: py_int_def strip_def is_space_def parse_number_def decimal_def
        decimal_zeros_def codes_def)
  have r: "fixup_run \<lparr>bottom_v = 20, top_v = 300\<rparr> (codes ''500'') = Some (Inr (codes ''300'', 1))"
    using fixup_run_above [OF p(1), of "\<lparr>bottom_v = 20, top_v = 300\<rparr>"] by (simp add: py_str_300)
  have r': "fixup_run \<lparr>bottom_v = 20, top_v = 300\<rparr> [0x0663] = Some (Inr (codes ''20'', 1))"
    using fixup_run_below [OF p(2), of "\<lparr>bottom_v = 20, top_v = 300\<rparr>"] by (simp add: py_str_20)
  show ?thesis
    using fixup_total_on_integers [of "\<lparr>bottom_v = 20, top_v = 300\<rparr>" "codes ''500''" "[0x1C, 0x35]"]
      fixup_total_on_integers [of "\<lparr>bottom_v = 20, top_v = 300\<rparr>" "[0x0663]" "[0x1C, 0x35]"]
      p r r'
    by simp
qed

subsection \<open>The tempo table and the search in it\<close>

lemma tempi_eq:
  "tempi = [40, 42, 44, 46, 48, 50, 52, 54, 56, 58, 60, 63, 66, 69, 72, 76, 80, 84, 88,
     92, 96, 100, 104, 108, 112, 116, 120, 126, 132, 138, 144, 152, 160, 168, 176, 184, 192,
     200, 208]"
  by (simp add: tempi_def py_range_def upt_rec)

lemma length_tempi: "length tempi = 39"
  by (simp add: tempi_eq)

lemma sorted_tempi: "sorted_wrt (<) tempi"
  by (simp add: tempi_eq)

lemma tempi_bounds: "v \<in> set tempi \<Longrightarrow> 40 \<le> v \<and> v \<le> 208"
  by (auto simp: tempi_eq)

lemma tempi_last: "tempi ! 38 = 208"
  by (simp add: tempi_eq)

lemma tempi_first: "tempi ! 0 = 40"
  by (simp add: tempi_eq)

lemma bisect_left_loop_spec:
  assumes "sorted_wrt (<) a" "lo \<le> hi" "hi \<le> length a"
    and "\<forall>j<lo. a ! j < x" and "\<forall>j. hi \<le> j \<and> j < length a \<longrightarrow> x \<le> a ! j"
  shows "bisect_left_loop a x lo hi \<le> length a
    \<and> (\<forall>j < bisect_left_loop a x lo hi. a ! j < x)
    \<and> (\<forall>j. bisect_left_loop a x lo hi \<le> j \<and> j < length a \<longrightarrow> x \<le> a ! j)"
  using assms
proof (induction a x lo hi rule: bisect_left_loop.induct)
  case (1 a x lo hi)
  show ?case
  proof (cases "lo < hi")
    case False
    with "1.prems" have "lo = hi" by simp
    with "1.prems" False show ?thesis
      by (subst bisect_left_loop.simps, subst bisect_left_loop.simps, subst bisect_left_loop.simps) simp
  next
    case True
    define mid where "mid = (lo + hi) div 2"
    have mid: "lo \<le> mid" "mid < hi" "mid < length a"
      using True "1.prems" by (simp_all add: mid_def)
    show ?thesis
    proof (cases "a ! mid < x")
      case lt: True
      have below: "\<forall>j<mid + 1. a ! j < x"
      proof (intro allI impI)
        fix j assume "j < mid + 1"
        then have "j = mid \<or> j < mid" by arith
        then show "a ! j < x"
        proof
          assume "j = mid" with lt show ?thesis by simp
        next
          assume "j < mid"
          with "1.prems"(1) mid have "a ! j < a ! mid"
            by (simp add: sorted_wrt_iff_nth_less)
          with lt show ?thesis by simp
        qed
      qed
      have eq: "bisect_left_loop a x lo hi = bisect_left_loop a x (mid + 1) hi"
        using True lt by (subst bisect_left_loop.simps) (simp add: mid_def)
      have "bisect_left_loop a x (mid + 1) hi \<le> length a
        \<and> (\<forall>j < bisect_left_loop a x (mid + 1) hi. a ! j < x)
        \<and> (\<forall>j. bisect_left_loop a x (mid + 1) hi \<le> j \<and> j < length a \<longrightarrow> x \<le> a ! j)"
        using "1.IH"(1) [OF True mid_def lt "1.prems"(1) _ "1.prems"(3) below "1.prems"(5)] mid
        by simp
      with eq show ?thesis by simp
    next
      case ge: False
      have above: "\<forall>j. mid \<le> j \<and> j < length a \<longrightarrow> x \<le> a ! j"
      proof (intro allI impI)
        fix j assume j: "mid \<le> j \<and> j < length a"
        then have "j = mid \<or> mid < j" by arith
        then show "x \<le> a ! j"
        proof
          assume "j = mid" with ge show ?thesis by simp
        next
          assume "mid < j"
          with "1.prems"(1) j have "a ! mid < a ! j"
            by (simp add: sorted_wrt_iff_nth_less)
          with ge show ?thesis by simp
        qed
      qed
      have eq: "bisect_left_loop a x lo hi = bisect_left_loop a x lo mid"
        using True ge by (subst bisect_left_loop.simps) (simp add: mid_def)
      have "bisect_left_loop a x lo mid \<le> length a
        \<and> (\<forall>j < bisect_left_loop a x lo mid. a ! j < x)
        \<and> (\<forall>j. bisect_left_loop a x lo mid \<le> j \<and> j < length a \<longrightarrow> x \<le> a ! j)"
        using "1.IH"(2) [OF True mid_def ge "1.prems"(1) _ _ "1.prems"(4) above] mid
        by simp
      with eq show ?thesis by simp
    qed
  qed
qed

lemma bisect_left_spec:
  assumes "sorted_wrt (<) a"
  shows "bisect_left a x \<le> length a"
    and "j < bisect_left a x \<Longrightarrow> a ! j < x"
    and "bisect_left a x \<le> j \<Longrightarrow> j < length a \<Longrightarrow> x \<le> a ! j"
  using bisect_left_loop_spec [OF assms, of 0 "length a" x]
  by (simp_all add: bisect_left_def)

lemma bisect_left_entry:
  assumes "sorted_wrt (<) a" "k < length a"
  shows "bisect_left a (a ! k) = k"
proof -
  let ?i = "bisect_left a (a ! k)"
  have "\<not> k < ?i" using bisect_left_spec(2) [OF assms(1), of k "a ! k"] by auto
  moreover have "\<not> ?i < k"
  proof
    assume lt: "?i < k"
    with assms have "a ! ?i < a ! k" by (simp add: sorted_wrt_iff_nth_less)
    moreover have "a ! k \<le> a ! ?i"
      using bisect_left_spec(3) [OF assms(1), of "a ! k" ?i] lt assms(2) by simp
    ultimately show False by simp
  qed
  ultimately show ?thesis by simp
qed

subsection \<open>What the tempo slot computes\<close>

lemma slider_position_range: "0 \<le> slider_position t \<and> slider_position t \<le> 38"
  by (simp add: slider_position_def qBound_def length_tempi)

lemma slider_position_low:
  assumes "t \<le> 208"
  shows "slider_position t = int (bisect_left tempi t)" "bisect_left tempi t < 39"
proof -
  have "\<not> 39 \<le> bisect_left tempi t"
  proof
    assume "39 \<le> bisect_left tempi t"
    then have "tempi ! 38 < t"
      using bisect_left_spec(2) [OF sorted_tempi, of 38 t] by simp
    with assms show False by (simp add: tempi_last)
  qed
  then show "bisect_left tempi t < 39" by simp
  then show "slider_position t = int (bisect_left tempi t)"
    by (simp add: slider_position_def qBound_def length_tempi)
qed

lemma slider_position_high:
  assumes "208 < t"
  shows "slider_position t = 38" "bisect_left tempi t = 39"
proof -
  have "\<not> bisect_left tempi t \<le> 38"
  proof
    assume "bisect_left tempi t \<le> 38"
    then have "t \<le> tempi ! 38"
      using bisect_left_spec(3) [OF sorted_tempi, of t 38] by (simp add: length_tempi)
    with assms show False by (simp add: tempi_last)
  qed
  moreover have "bisect_left tempi t \<le> 39"
    using bisect_left_spec(1) [OF sorted_tempi, of t] by (simp add: length_tempi)
  ultimately show "bisect_left tempi t = 39" by simp
  then show "slider_position t = 38"
    by (simp add: slider_position_def qBound_def length_tempi)
qed

lemma slider_position_entry:
  assumes "k < 39"
  shows "slider_position (tempi ! k) = int k"
  using assms bisect_left_entry [OF sorted_tempi, of k]
  by (simp add: slider_position_def qBound_def length_tempi)

lemma py_getitem_tempi:
  assumes "0 \<le> i" "i \<le> 38"
  shows "py_getitem tempi i = Inr (tempi ! nat i)"
  using assms by (simp add: py_getitem_def length_tempi)

lemma tempo_read_frame [simp]:
  "tempo_read (s\<lparr>current_tempo := a\<rparr>) = tempo_read s"
  "tempo_read (s\<lparr>slider_value := b\<rparr>) = tempo_read s"
  by (simp_all add: tempo_read_def)

lemma get_marking_frame [simp]:
  "get_marking (s\<lparr>slider_value := b\<rparr>) = get_marking s"
  "get_marking (s\<lparr>tempo_input_text := c\<rparr>) = get_marking s"
  "get_marking (s\<lparr>tempo_indicator := d\<rparr>) = get_marking s"
  "get_marking (s\<lparr>traditional_marking := e\<rparr>) = get_marking s"
  by (simp_all add: get_marking_def)

lemma update_tempo_maelzel:
  assumes "mode s = Maelzel" "py_getitem tempi (slider_value s) = Inr v"
  shows "update_tempo s =
    Inr (s\<lparr>current_tempo := v, tempo_input_text := py_str v, tempo_indicator := py_str v,
           traditional_marking := get_marking (s\<lparr>current_tempo := v\<rparr>)\<rparr>)"
  using assms by (subst update_tempo.simps) (simp add: get_marking_def)

lemma update_tempo_maelzel_error:
  assumes "mode s = Maelzel" "py_getitem tempi (slider_value s) = Inl e"
  shows "update_tempo s = Inl e"
  using assms by (subst update_tempo.simps) simp

lemma update_tempo_precise_error:
  assumes "mode s = Precise" "tempo_read s = Inl e"
  shows "update_tempo s = Inl e"
  using assms by (subst update_tempo.simps) simp

lemma update_tempo_precise_settled:
  assumes "mode s = Precise" "tempo_read s = Inr v"
    and "qBound (slider_minimum s) (int (bisect_left tempi v)) (slider_maximum s) = slider_value s"
  shows "update_tempo s =
    Inr (s\<lparr>current_tempo := v, tempo_indicator := py_str v,
           traditional_marking := get_marking (s\<lparr>current_tempo := v\<rparr>)\<rparr>)"
  using assms
  by (subst update_tempo.simps) (simp add: slider_setValue.simps [of _ "s\<lparr>current_tempo := v\<rparr>"] get_marking_def)

lemma update_tempo_precise:
  assumes "mode s = Precise" "tempo_read s = Inr v"
  shows "update_tempo s =
    Inr (s\<lparr>current_tempo := v,
           slider_value := qBound (slider_minimum s) (int (bisect_left tempi v)) (slider_maximum s),
           tempo_indicator := py_str v,
           traditional_marking := get_marking (s\<lparr>current_tempo := v\<rparr>)\<rparr>)"
proof (cases "qBound (slider_minimum s) (int (bisect_left tempi v)) (slider_maximum s) = slider_value s")
  case True
  have "s\<lparr>current_tempo := v, slider_value := slider_value s, tempo_indicator := py_str v,
           traditional_marking := get_marking (s\<lparr>current_tempo := v\<rparr>)\<rparr>
      = s\<lparr>current_tempo := v, tempo_indicator := py_str v,
           traditional_marking := get_marking (s\<lparr>current_tempo := v\<rparr>)\<rparr>"
    by simp
  with True update_tempo_precise_settled [OF assms True] show ?thesis by simp
next
  case False
  let ?w = "qBound (slider_minimum s) (int (bisect_left tempi v)) (slider_maximum s)"
  let ?s2 = "s\<lparr>current_tempo := v, slider_value := ?w\<rparr>"
  have inner: "update_tempo ?s2 =
    Inr (?s2\<lparr>current_tempo := v, tempo_indicator := py_str v,
           traditional_marking := get_marking (?s2\<lparr>current_tempo := v\<rparr>)\<rparr>)"
    using assms by (intro update_tempo_precise_settled) simp_all
  have "update_tempo s =
    (case update_tempo ?s2 of Inl e \<Rightarrow> Inl e
     | Inr s' \<Rightarrow> Inr (s'\<lparr>tempo_indicator := py_str (current_tempo s'),
                        traditional_marking := get_marking s'\<rparr>))"
    using assms False
    by (subst update_tempo.simps) (simp add: slider_setValue.simps [of _ "s\<lparr>current_tempo := v\<rparr>"] Let_def)
  then show ?thesis
    by (simp only: inner) (simp add: get_marking_def)
qed

subsection \<open>The marking, the tick interval and the empty line edit\<close>

lemma py_str_40: "py_str 40 = codes ''40''"
  by (simp add: py_str_def dec_digits.simps digit_char_def codes_def)

lemma metronome_init_eq:
  "metronome_init =
     Inr \<lparr>current_tempo = 40, playing = False, mode = Maelzel, slider_minimum = 0,
          slider_maximum = 38, slider_value = 0, slider_enabled = True, slider_visible = True,
          tempo_input_text = codes ''40'', tempo_input_enabled = False, tempo_input_visible = False,
          tempo_indicator = codes ''40'', traditional_marking = ''Grave'',
          mode_indicator = ''Mode: '' @ mode_str Maelzel, start_stop_button = ''Start'',
          timer_update_interval = 40, timer_running = False\<rparr>"
  by (simp add: metronome_init_def py_getitem_def length_tempi tempi_first py_str_40
      get_marking_def Let_def)

lemma get_marking_against_table:
  "get_marking s = table_marking (current_tempo s) \<longleftrightarrow>
     \<not> (61 \<le> current_tempo s \<and> current_tempo s \<le> 66)"
  by (simp add: get_marking_def table_marking_def)

text \<open>
  C1. The classification follows the thresholds of the table, but between 61 and 66 it
  returns the string \<open>''Largetto''\<close>, not \<open>''Larghetto''\<close>: at the tempo 66, which the slider
  reaches at position 12, and at 61.
\<close>

theorem get_marking_66:
  "get_marking (s\<lparr>current_tempo := 66\<rparr>) = ''Largetto''
   \<and> get_marking (s\<lparr>current_tempo := 61\<rparr>) = ''Largetto''
   \<and> get_marking (s\<lparr>current_tempo := 66\<rparr>) \<noteq> ''Larghetto''
   \<and> py_getitem tempi 12 = Inr 66"
  by (simp add: get_marking_def py_getitem_def tempi_eq)

text \<open>
  C6. Starting playback sets the timer's update interval to 60000 divided by the current
  tempo, rounded down: 500 at tempo 120, 1500 at tempo 40, 1000 at tempo 60.
\<close>

theorem start_sets_interval:
  assumes "\<not> playing s" "current_tempo s \<noteq> 0"
  shows "\<exists>s'. start_stop_metronome s = Inr s' \<and> playing s' \<and> timer_running s'
     \<and> timer_update_interval s' = 60000 div current_tempo s
     \<and> (current_tempo s = 120 \<longrightarrow> timer_update_interval s' = 500)
     \<and> (current_tempo s = 40 \<longrightarrow> timer_update_interval s' = 1500)
     \<and> (current_tempo s = 60 \<longrightarrow> timer_update_interval s' = 1000)"
  using assms by (simp add: start_stop_metronome_def start_branch_def)

theorem start_sets_interval_witness:
  "\<not> playing (projr metronome_init) \<and> current_tempo (projr metronome_init) \<noteq> 0
   \<and> current_tempo (projr metronome_init) = 40
   \<and> (\<exists>s'. start_stop_metronome (projr metronome_init) = Inr s' \<and> timer_update_interval s' = 1500)"
proof -
  have h: "\<not> playing (projr metronome_init)" "current_tempo (projr metronome_init) \<noteq> 0"
    "current_tempo (projr metronome_init) = 40"
    by (simp_all add: metronome_init_eq)
  from start_sets_interval [OF h(1) h(2)] h show ?thesis by auto
qed

text \<open>
  The tempo slot has a branch of its own for an empty line edit: run in Precise mode on an
  empty text, it sets the tempo to the first entry of the table, 40.
\<close>

lemma update_tempo_on_empty_text:
  assumes "mode s = Precise" "tempo_input_text s = []"
  shows "\<exists>s'. update_tempo s = Inr s' \<and> current_tempo s' = 40"
proof -
  have "tempo_read s = Inr 40"
    using assms(2) by (simp add: tempo_read_def py_getitem_def length_tempi tempi_first)
  from update_tempo_precise [OF assms(1) this] show ?thesis by simp
qed

subsection \<open>What the slots leave alone\<close>

lemma update_tempo_frame:
  assumes "update_tempo s = Inr s'"
  shows "playing s' = playing s" "timer_update_interval s' = timer_update_interval s"
    "timer_running s' = timer_running s" "mode s' = mode s"
    "slider_minimum s' = slider_minimum s" "slider_maximum s' = slider_maximum s"
    "start_stop_button s' = start_stop_button s"
proof -
  have "playing s' = playing s \<and> timer_update_interval s' = timer_update_interval s
    \<and> timer_running s' = timer_running s \<and> mode s' = mode s
    \<and> slider_minimum s' = slider_minimum s \<and> slider_maximum s' = slider_maximum s
    \<and> start_stop_button s' = start_stop_button s"
  proof (cases "mode s")
    case Maelzel
    show ?thesis
    proof (cases "py_getitem tempi (slider_value s)")
      case (Inl e)
      with assms update_tempo_maelzel_error [OF Maelzel Inl] show ?thesis by simp
    next
      case (Inr v)
      with assms update_tempo_maelzel [OF Maelzel Inr] show ?thesis by auto
    qed
  next
    case Precise
    show ?thesis
    proof (cases "tempo_read s")
      case (Inl e)
      with assms update_tempo_precise_error [OF Precise Inl] show ?thesis by simp
    next
      case (Inr v)
      with assms update_tempo_precise [OF Precise Inr] show ?thesis by auto
    qed
  qed
  then show "playing s' = playing s" "timer_update_interval s' = timer_update_interval s"
    "timer_running s' = timer_running s" "mode s' = mode s"
    "slider_minimum s' = slider_minimum s" "slider_maximum s' = slider_maximum s"
    "start_stop_button s' = start_stop_button s"
    by simp_all
qed

lemma slider_setValue_frame:
  assumes "slider_setValue i s = Inr s'"
  shows "playing s' = playing s" "timer_update_interval s' = timer_update_interval s"
    "timer_running s' = timer_running s" "mode s' = mode s"
    "slider_minimum s' = slider_minimum s" "slider_maximum s' = slider_maximum s"
proof -
  let ?w = "qBound (slider_minimum s) i (slider_maximum s)"
  have "s' = s \<or> update_tempo (s\<lparr>slider_value := ?w\<rparr>) = Inr s'"
    using assms by (simp add: slider_setValue.simps Let_def split: if_splits)
  then show "playing s' = playing s" "timer_update_interval s' = timer_update_interval s"
    "timer_running s' = timer_running s" "mode s' = mode s"
    "slider_minimum s' = slider_minimum s" "slider_maximum s' = slider_maximum s"
    using update_tempo_frame [of "s\<lparr>slider_value := ?w\<rparr>" s'] by auto
qed

lemma switch_mode_frame:
  assumes "switch_mode s = Inr s'"
  shows "playing s' = playing s" "timer_update_interval s' = timer_update_interval s"
    "timer_running s' = timer_running s"
    "slider_minimum s' = slider_minimum s" "slider_maximum s' = slider_maximum s"
proof -
  let ?m = "case mode s of
      Maelzel \<Rightarrow> s\<lparr>mode := Precise, tempo_input_visible := True, tempo_input_enabled := True,
                    slider_enabled := False, slider_visible := False\<rparr>
    | Precise \<Rightarrow> s\<lparr>mode := Maelzel, tempo_input_visible := False, tempo_input_enabled := False,
                    slider_enabled := True, slider_visible := True\<rparr>"
  from assms obtain u where u: "update_tempo ?m = Inr u"
    and s': "s' = u\<lparr>mode_indicator := ''Mode: '' @ mode_str (mode u)\<rparr>"
    by (auto simp: switch_mode_def split: sum.splits)
  have m: "playing ?m = playing s" "timer_update_interval ?m = timer_update_interval s"
    "timer_running ?m = timer_running s"
    "slider_minimum ?m = slider_minimum s" "slider_maximum ?m = slider_maximum s"
    by (simp_all split: mode.splits)
  show "playing s' = playing s" "timer_update_interval s' = timer_update_interval s"
    "timer_running s' = timer_running s"
    "slider_minimum s' = slider_minimum s" "slider_maximum s' = slider_maximum s"
    using update_tempo_frame [OF u] m s' by simp_all
qed

text \<open>
  C8. While \<open>playing\<close> is set, no event other than the start/stop button changes the timer's
  update interval, whether the timer runs, or \<open>playing\<close>; the button then stops the timer
  without touching the interval, and the start after that sets the interval from the tempo
  current at that moment.
\<close>

theorem interval_fixed_while_playing:
  "(playing s \<and> e \<noteq> StartStop \<and> fire e s = Some (Inr s') \<longrightarrow>
      timer_update_interval s' = timer_update_interval s \<and> playing s'
      \<and> timer_running s' = timer_running s)
   \<and> (playing s \<longrightarrow>
        (\<exists>s1. start_stop_metronome s = Inr s1 \<and> \<not> playing s1
           \<and> timer_update_interval s1 = timer_update_interval s
           \<and> current_tempo s1 = current_tempo s
           \<and> (current_tempo s1 \<noteq> 0 \<longrightarrow>
                (\<exists>s2. start_stop_metronome s1 = Inr s2 \<and> playing s2
                   \<and> timer_update_interval s2 = 60000 div current_tempo s1))))"
proof (rule conjI; rule impI)
  assume a: "playing s \<and> e \<noteq> StartStop \<and> fire e s = Some (Inr s')"
  show "timer_update_interval s' = timer_update_interval s \<and> playing s'
      \<and> timer_running s' = timer_running s"
  proof (cases e)
    case SwitchMode
    with a have "switch_mode s = Inr s'" by simp
    from switch_mode_frame [OF this] a show ?thesis by simp
  next
    case (SliderMoved i)
    with a have "slider_setValue i s = Inr s'" by simp
    from slider_setValue_frame [OF this] a show ?thesis by simp
  next
    case (EditingFinished r)
    with a obtain t where "update_tempo (s\<lparr>tempo_input_text := t\<rparr>) = Inr s'"
      by (auto split: option.splits sum.splits)
    from update_tempo_frame [OF this] a show ?thesis by simp
  next
    case StartStop
    with a show ?thesis by simp
  qed
next
  assume "playing s"
  then show "\<exists>s1. start_stop_metronome s = Inr s1 \<and> \<not> playing s1
           \<and> timer_update_interval s1 = timer_update_interval s
           \<and> current_tempo s1 = current_tempo s
           \<and> (current_tempo s1 \<noteq> 0 \<longrightarrow>
                (\<exists>s2. start_stop_metronome s1 = Inr s2 \<and> playing s2
                   \<and> timer_update_interval s2 = 60000 div current_tempo s1))"
    by (simp add: start_stop_metronome_def start_branch_def stop_branch_def)
qed

subsection \<open>The relation between the fields is kept\<close>

lemma py_str_nonempty: "py_str n \<noteq> []"
  by (simp add: py_str_def dec_digits_nonempty)

lemma py_int_nonempty: "py_int s = Inr n \<Longrightarrow> s \<noteq> []"
  by (auto simp: py_int_def strip_def)

lemma fixup_result:
  assumes "fixup v r = Some (Inr t)" "bottom_v v \<le> top_v v"
  shows "\<exists>m. py_int t = Inr m \<and> bottom_v v \<le> m \<and> m \<le> top_v v"
proof (cases "r = []")
  case True
  with assms fixup_run_empty [OF assms(2)] have "t = py_str (bottom_v v)"
    by (simp add: fixup_def)
  with assms(2) show ?thesis by (simp add: py_int_py_str)
next
  case False
  show ?thesis
  proof (cases "py_int r")
    case (Inl e)
    with assms False fixup_run_error [of r e v] show ?thesis by (simp add: fixup_def)
  next
    case (Inr n)
    consider "n < bottom_v v" | "top_v v < n" | "bottom_v v \<le> n" "n \<le> top_v v" by linarith
    then show ?thesis
    proof cases
      case 1
      with assms fixup_run_below [OF Inr 1 assms(2)] show ?thesis
        by (auto simp: fixup_def py_int_py_str)
    next
      case 2
      with assms fixup_run_above [OF Inr 2 assms(2)] show ?thesis
        by (auto simp: fixup_def py_int_py_str)
    next
      case 3
      with assms fixup_run_in_range [OF Inr 3] Inr show ?thesis
        by (auto simp: fixup_def)
    qed
  qed
qed

lemma consistent_init:
  assumes "metronome_init = Inr s"
  shows "consistent s" "mode s = Maelzel" "current_tempo s = 40" "\<not> playing s"
  using assms
  by (auto simp: metronome_init_eq consistent_def length_tempi py_getitem_def tempi_first py_str_40)

lemma consistent_slider:
  assumes "consistent s"
  shows "slider_minimum s = 0" "slider_maximum s = 38" "0 \<le> slider_value s"
    "slider_value s \<le> 38" "timer_running s = playing s"
  using assms by (simp_all add: consistent_def length_tempi)

lemma update_tempo_maelzel_consistent:
  assumes "mode s = Maelzel" "slider_minimum s = 0" "slider_maximum s = 38"
    "0 \<le> slider_value s" "slider_value s \<le> 38" "timer_running s = playing s"
  shows "\<exists>s'. update_tempo s = Inr s' \<and> consistent s' \<and> mode s' = Maelzel
    \<and> current_tempo s' = tempi ! nat (slider_value s)"
proof -
  have g: "py_getitem tempi (slider_value s) = Inr (tempi ! nat (slider_value s))"
    using assms(4,5) by (rule py_getitem_tempi)
  show ?thesis
    using assms g
    by (simp add: update_tempo_maelzel [OF assms(1) g] consistent_def length_tempi)
qed

lemma update_tempo_precise_consistent:
  assumes "mode s = Precise" "slider_minimum s = 0" "slider_maximum s = 38"
    "timer_running s = playing s" "tempo_read s = Inr v" "20 \<le> v" "v \<le> 300"
  shows "\<exists>s'. update_tempo s = Inr s' \<and> consistent s' \<and> mode s' = Precise
    \<and> current_tempo s' = v \<and> slider_value s' = slider_position v"
proof -
  have r: "0 \<le> slider_position v" "slider_position v \<le> 38"
    using slider_position_range [of v] by simp_all
  have u: "update_tempo s = Inr (s\<lparr>current_tempo := v, slider_value := slider_position v,
      tempo_indicator := py_str v,
      traditional_marking := get_marking (s\<lparr>current_tempo := v\<rparr>)\<rparr>)"
    using update_tempo_precise [OF assms(1) assms(5)] assms(2,3)
    by (simp add: slider_position_def length_tempi)
  have t: "tempo_read (s\<lparr>current_tempo := v, slider_value := slider_position v,
      tempo_indicator := py_str v,
      traditional_marking := get_marking (s\<lparr>current_tempo := v\<rparr>)\<rparr>) = Inr v"
    using assms(5) by (auto simp: tempo_read_def split: if_splits)
  show ?thesis
    using assms(1-4,6,7) r t by (simp add: u consistent_def length_tempi)
qed

lemma consistent_tempo:
  assumes "consistent s"
  shows "mode s = Maelzel \<Longrightarrow> current_tempo s = tempi ! nat (slider_value s)"
    and "mode s = Maelzel \<Longrightarrow> current_tempo s \<in> set tempi"
    and "mode s = Maelzel \<Longrightarrow> tempo_input_text s = py_str (current_tempo s)"
    and "mode s = Precise \<Longrightarrow> tempo_read s = Inr (current_tempo s)"
    and "mode s = Precise \<Longrightarrow> slider_value s = slider_position (current_tempo s)"
    and "20 \<le> current_tempo s" and "current_tempo s \<le> 300"
proof -
  note sl = consistent_slider [OF assms]
  have g: "py_getitem tempi (slider_value s) = Inr (tempi ! nat (slider_value s))"
    using sl(3,4) by (rule py_getitem_tempi)
  have n: "nat (slider_value s) < length tempi"
    using sl(3,4) by (simp add: length_tempi)
  show m1: "mode s = Maelzel \<Longrightarrow> current_tempo s = tempi ! nat (slider_value s)"
    using assms g by (simp add: consistent_def)
  show m2: "mode s = Maelzel \<Longrightarrow> current_tempo s \<in> set tempi"
    using m1 n by simp
  show "mode s = Maelzel \<Longrightarrow> tempo_input_text s = py_str (current_tempo s)"
    using assms by (simp add: consistent_def)
  show "mode s = Precise \<Longrightarrow> tempo_read s = Inr (current_tempo s)"
    using assms by (simp add: consistent_def)
  show "mode s = Precise \<Longrightarrow> slider_value s = slider_position (current_tempo s)"
    using assms by (simp add: consistent_def)
  show "20 \<le> current_tempo s"
  proof (cases "mode s")
    case Maelzel
    with m2 tempi_bounds [of "current_tempo s"] show ?thesis by simp
  next
    case Precise
    with assms show ?thesis by (simp add: consistent_def)
  qed
  show "current_tempo s \<le> 300"
  proof (cases "mode s")
    case Maelzel
    with m2 tempi_bounds [of "current_tempo s"] show ?thesis by simp
  next
    case Precise
    with assms show ?thesis by (simp add: consistent_def)
  qed
qed

lemma consistent_mode_indicator:
  "consistent (s\<lparr>mode_indicator := x\<rparr>) = consistent s"
  by (simp add: consistent_def tempo_read_def cong: mode.case_cong)

lemma switch_mode_consistent:
  assumes "consistent s"
  shows "\<exists>s'. switch_mode s = Inr s' \<and> consistent s'
    \<and> (mode s = Maelzel \<longrightarrow> mode s' = Precise \<and> current_tempo s' = current_tempo s)
    \<and> (mode s = Precise \<longrightarrow> mode s' = Maelzel
          \<and> current_tempo s' = tempi ! nat (slider_position (current_tempo s)))"
proof (cases "mode s")
  case Maelzel
  let ?m = "s\<lparr>mode := Precise, tempo_input_visible := True, tempo_input_enabled := True,
                slider_enabled := False, slider_visible := False\<rparr>"
  note sl = consistent_slider [OF assms]
  note ct = consistent_tempo [OF assms]
  have "tempo_read ?m = Inr (current_tempo s)"
    using ct(3) [OF Maelzel] by (simp add: tempo_read_def py_str_nonempty py_int_py_str)
  then obtain u where u: "update_tempo ?m = Inr u" "consistent u" "mode u = Precise"
    "current_tempo u = current_tempo s"
    using update_tempo_precise_consistent [of ?m "current_tempo s"] sl ct(6,7) by auto
  have "consistent (u\<lparr>mode_indicator := ''Mode: '' @ mode_str (mode u)\<rparr>)"
    using u(2) by (simp add: consistent_mode_indicator)
  with u Maelzel show ?thesis by (simp add: switch_mode_def)
next
  case Precise
  let ?m = "s\<lparr>mode := Maelzel, tempo_input_visible := False, tempo_input_enabled := False,
                slider_enabled := True, slider_visible := True\<rparr>"
  note sl = consistent_slider [OF assms]
  note ct = consistent_tempo [OF assms]
  obtain u where u: "update_tempo ?m = Inr u" "consistent u" "mode u = Maelzel"
    "current_tempo u = tempi ! nat (slider_value s)"
    using update_tempo_maelzel_consistent [of ?m] sl by auto
  have "consistent (u\<lparr>mode_indicator := ''Mode: '' @ mode_str (mode u)\<rparr>)"
    using u(2) by (simp add: consistent_mode_indicator)
  with u Precise ct(5) [OF Precise] show ?thesis by (simp add: switch_mode_def)
qed

lemma slider_setValue_consistent:
  assumes "consistent s"
  shows "\<exists>s'. slider_setValue i s = Inr s' \<and> consistent s' \<and> mode s' = mode s"
proof -
  note sl = consistent_slider [OF assms]
  note ct = consistent_tempo [OF assms]
  let ?w = "qBound (slider_minimum s) i (slider_maximum s)"
  have w: "0 \<le> ?w" "?w \<le> 38" using sl by (simp_all add: qBound_def)
  show ?thesis
  proof (cases "?w = slider_value s")
    case True
    with assms show ?thesis by (simp add: slider_setValue.simps)
  next
    case False
    then have eq: "slider_setValue i s = update_tempo (s\<lparr>slider_value := ?w\<rparr>)"
      by (simp add: slider_setValue.simps Let_def)
    show ?thesis
    proof (cases "mode s")
      case Maelzel
      with update_tempo_maelzel_consistent [of "s\<lparr>slider_value := ?w\<rparr>"] sl w eq
      show ?thesis by auto
    next
      case Precise
      with update_tempo_precise_consistent [of "s\<lparr>slider_value := ?w\<rparr>" "current_tempo s"]
        sl ct(4) [OF Precise] ct(6,7) eq
      show ?thesis by auto
    qed
  qed
qed

lemma editing_finished_consistent:
  assumes "consistent s" "fixup tempo_input_validator r = Some (Inr t)"
  shows "\<exists>s'. update_tempo (s\<lparr>tempo_input_text := t\<rparr>) = Inr s' \<and> consistent s'
    \<and> mode s' = mode s"
proof -
  note sl = consistent_slider [OF assms(1)]
  obtain m where m: "py_int t = Inr m" "20 \<le> m" "m \<le> 300"
    using fixup_result [OF assms(2)] by (auto simp: tempo_input_validator_def)
  show ?thesis
  proof (cases "mode s")
    case Maelzel
    with update_tempo_maelzel_consistent [of "s\<lparr>tempo_input_text := t\<rparr>"] sl
    show ?thesis by auto
  next
    case Precise
    have "tempo_read (s\<lparr>tempo_input_text := t\<rparr>) = Inr m"
      using m(1) py_int_nonempty [OF m(1)] by (simp add: tempo_read_def)
    with update_tempo_precise_consistent [of "s\<lparr>tempo_input_text := t\<rparr>" m] sl m Precise
    show ?thesis by auto
  qed
qed

lemma start_stop_consistent:
  assumes "consistent s"
  shows "\<exists>s'. start_stop_metronome s = Inr s' \<and> consistent s' \<and> mode s' = mode s
    \<and> current_tempo s' = current_tempo s \<and> playing s' = (\<not> playing s)"
proof -
  have "current_tempo s \<noteq> 0" using consistent_tempo(6) [OF assms] by simp
  with assms show ?thesis
    by (auto simp: start_stop_metronome_def start_branch_def stop_branch_def consistent_def tempo_read_def cong: mode.case_cong)
qed

lemma fire_consistent:
  assumes "consistent s" "fire e s = Some (Inr s')"
  shows "consistent s'"
proof (cases e)
  case SwitchMode
  with assms switch_mode_consistent [OF assms(1)] show ?thesis by auto
next
  case (SliderMoved i)
  with assms slider_setValue_consistent [OF assms(1), of i] show ?thesis by auto
next
  case (EditingFinished r)
  with assms(2) obtain t where t: "fixup tempo_input_validator r = Some (Inr t)"
    "update_tempo (s\<lparr>tempo_input_text := t\<rparr>) = Inr s'"
    by (auto split: option.splits sum.splits)
  with editing_finished_consistent [OF assms(1) t(1)] show ?thesis by auto
next
  case StartStop
  with assms start_stop_consistent [OF assms(1)] show ?thesis by auto
qed

lemma reachable_consistent: "reachable s \<Longrightarrow> consistent s"
proof (induction rule: reachable.induct)
  case (reachable_init s)
  then show ?case by (rule consistent_init)
next
  case (reachable_fire s e s')
  then show ?case using fire_consistent by blast
qed

lemma fixup_returns:
  assumes "bottom_v v \<le> top_v v" "r = [] \<or> py_int r = Inr n"
  shows "\<exists>t. fixup v r = Some (Inr t)"
proof (cases "r = []")
  case True
  with fixup_run_empty [OF assms(1)] show ?thesis by (simp add: fixup_def)
next
  case False
  with assms(2) have n: "py_int r = Inr n" by simp
  consider "n < bottom_v v" | "top_v v < n" | "bottom_v v \<le> n" "n \<le> top_v v" by linarith
  then show ?thesis
  proof cases
    case 1
    with fixup_run_below [OF n 1 assms(1)] show ?thesis by (simp add: fixup_def)
  next
    case 2
    with fixup_run_above [OF n 2 assms(1)] show ?thesis by (simp add: fixup_def)
  next
    case 3
    with fixup_run_in_range [OF n 3] show ?thesis by (simp add: fixup_def)
  qed
qed

text \<open>
  From a consistent state every event is served without an error, except an edit finished on
  a text that is not empty and that \<open>int\<close> rejects; no event leaves the validator looping.
\<close>

lemma fire_progress:
  assumes "consistent s" "\<And>r. e = EditingFinished r \<Longrightarrow> r = [] \<or> (\<exists>n. py_int r = Inr n)"
  shows "\<exists>s'. fire e s = Some (Inr s')"
proof (cases e)
  case SwitchMode
  with switch_mode_consistent [OF assms(1)] show ?thesis by auto
next
  case (SliderMoved i)
  with slider_setValue_consistent [OF assms(1), of i] show ?thesis by auto
next
  case (EditingFinished r)
  with assms(2) obtain n where "r = [] \<or> py_int r = Inr n" by blast
  then obtain t where t: "fixup tempo_input_validator r = Some (Inr t)"
    using fixup_returns [of tempo_input_validator r n] by (auto simp: tempo_input_validator_def)
  with editing_finished_consistent [OF assms(1) t] EditingFinished show ?thesis by auto
next
  case StartStop
  with start_stop_consistent [OF assms(1)] show ?thesis by auto
qed

lemma run_reachable:
  assumes "reachable s" "run es s = Some (Inr s')"
  shows "reachable s'"
  using assms
proof (induction es arbitrary: s)
  case Nil
  then show ?case by simp
next
  case (Cons e es)
  from Cons.prems(2) obtain u where u: "fire e s = Some (Inr u)" "run es u = Some (Inr s')"
    by (auto split: option.splits sum.splits)
  from Cons.prems(1) u(1) have "reachable u" by (rule reachable_fire)
  from Cons.IH [OF this u(2)] show ?case .
qed

lemma reachable_run:
  assumes "reachable s"
  shows "\<exists>s0 es. metronome_init = Inr s0 \<and> run es s0 = Some (Inr s)"
  using assms
proof (induction rule: reachable.induct)
  case (reachable_init s)
  then have "run [] s = Some (Inr s)" by simp
  with reachable_init show ?case by blast
next
  case (reachable_fire s e s')
  then obtain s0 es where a: "metronome_init = Inr s0" "run es s0 = Some (Inr s)" by blast
  have "run (es @ [e]) s0 = Some (Inr s')" if "run es u = Some (Inr s)" "u = s0" for u
    using that reachable_fire.hyps(2)
  proof (induction es arbitrary: u s0)
    case Nil
    then show ?case by simp
  next
    case (Cons x xs)
    then show ?case by (auto split: option.splits sum.splits)
  qed
  with a show ?case by blast
qed

subsection \<open>The slider position for a tempo\<close>

lemma slider_position_on_table:
  assumes "consistent s" "mode s = Maelzel"
  shows "tempi ! nat (slider_position (current_tempo s)) = current_tempo s"
proof -
  note sl = consistent_slider [OF assms(1)]
  have k: "nat (slider_value s) < 39" using sl by simp
  have "current_tempo s = tempi ! nat (slider_value s)"
    using consistent_tempo(1) [OF assms] .
  with slider_position_entry [OF k] show ?thesis by simp
qed

text \<open>
  C2. The position at which the tempo slot puts the slider for a tempo \<open>t\<close> is a valid index
  of the table; up to the last entry, 208, it is the smallest index whose entry is at least
  \<open>t\<close>; above 208 it is the last index; and for an entry of the table it is the index of
  that entry. The slot, run in Precise mode on a slider with the table's range, leaves the
  slider there.
\<close>

theorem slider_position_nearest_at_or_above:
  "0 \<le> slider_position t \<and> nat (slider_position t) < length tempi
   \<and> (t \<le> 208 \<longrightarrow>
        slider_position t = int (bisect_left tempi t)
        \<and> t \<le> tempi ! nat (slider_position t)
        \<and> (\<forall>j < nat (slider_position t). tempi ! j < t))
   \<and> (208 < t \<longrightarrow> slider_position t = int (length tempi) - 1)
   \<and> (\<forall>k < length tempi. slider_position (tempi ! k) = int k)
   \<and> last tempi = 208
   \<and> (mode s = Precise \<and> tempo_read s = Inr t \<and> slider_minimum s = 0
        \<and> slider_maximum s = int (length tempi) - 1 \<longrightarrow>
        (\<exists>s'. update_tempo s = Inr s' \<and> slider_value s' = slider_position t))"
proof -
  have a: "0 \<le> slider_position t \<and> nat (slider_position t) < length tempi"
    using slider_position_range [of t] by (auto simp: length_tempi)
  have b: "t \<le> 208 \<longrightarrow>
        slider_position t = int (bisect_left tempi t)
        \<and> t \<le> tempi ! nat (slider_position t)
        \<and> (\<forall>j < nat (slider_position t). tempi ! j < t)"
  proof
    assume le: "t \<le> 208"
    note p = slider_position_low [OF le]
    have "t \<le> tempi ! bisect_left tempi t"
      using bisect_left_spec(3) [OF sorted_tempi, of t "bisect_left tempi t"] p(2)
      by (simp add: length_tempi)
    moreover have "\<forall>j < bisect_left tempi t. tempi ! j < t"
      using bisect_left_spec(2) [OF sorted_tempi] by blast
    ultimately show "slider_position t = int (bisect_left tempi t)
        \<and> t \<le> tempi ! nat (slider_position t)
        \<and> (\<forall>j < nat (slider_position t). tempi ! j < t)"
      using p(1) by simp
  qed
  have c: "208 < t \<longrightarrow> slider_position t = int (length tempi) - 1"
    using slider_position_high(1) [of t] by (simp add: length_tempi)
  have d: "\<forall>k < length tempi. slider_position (tempi ! k) = int k"
    using slider_position_entry by (simp add: length_tempi)
  have e: "last tempi = 208" by (simp add: tempi_eq)
  have f: "mode s = Precise \<and> tempo_read s = Inr t \<and> slider_minimum s = 0
        \<and> slider_maximum s = int (length tempi) - 1 \<longrightarrow>
        (\<exists>s'. update_tempo s = Inr s' \<and> slider_value s' = slider_position t)"
  proof
    assume h: "mode s = Precise \<and> tempo_read s = Inr t \<and> slider_minimum s = 0
        \<and> slider_maximum s = int (length tempi) - 1"
    then have "update_tempo s =
      Inr (s\<lparr>current_tempo := t,
           slider_value := qBound (slider_minimum s) (int (bisect_left tempi t)) (slider_maximum s),
           tempo_indicator := py_str t,
           traditional_marking := get_marking (s\<lparr>current_tempo := t\<rparr>)\<rparr>)"
      using update_tempo_precise [of s t] by simp
    with h show "\<exists>s'. update_tempo s = Inr s' \<and> slider_value s' = slider_position t"
      by (simp add: slider_position_def)
  qed
  from a b c d e f show ?thesis by blast
qed

theorem slider_position_nearest_at_or_above_witness:
  "slider_position 61 = 11 \<and> tempi ! 11 = 63 \<and> tempi ! 10 = 60
   \<and> slider_position 250 = 38 \<and> slider_position 63 = 11
   \<and> mode (projr metronome_init\<lparr>mode := Precise, tempo_input_text := codes ''250''\<rparr>) = Precise
   \<and> tempo_read (projr metronome_init\<lparr>mode := Precise, tempo_input_text := codes ''250''\<rparr>) = Inr 250
   \<and> map_sum id slider_value
        (update_tempo (projr metronome_init\<lparr>mode := Precise, tempo_input_text := codes ''250''\<rparr>)) = Inr 38"
proof -
  let ?s = "projr metronome_init\<lparr>mode := Precise, tempo_input_text := codes ''250''\<rparr>"
  have t: "tempi ! 11 = 63" "tempi ! 10 = 60" by (simp_all add: tempi_eq)
  have b: "bisect_left tempi 61 = 11"
    by (simp add: bisect_left_def tempi_eq bisect_left_loop.simps)
  have r: "tempo_read ?s = Inr 250"
    by (simp add: tempo_read_def py_int_def strip_def is_space_def parse_number_def
        decimal_def decimal_zeros_def codes_def)
  have m: "mode ?s = Precise" "slider_minimum ?s = 0" "slider_maximum ?s = int (length tempi) - 1"
    by (simp_all add: metronome_init_eq length_tempi)
  have p61: "slider_position 61 = 11"
    using slider_position_nearest_at_or_above [of 61 ?s] b by simp
  have p250: "slider_position 250 = 38"
    using slider_position_nearest_at_or_above [of 250 ?s] by (simp add: length_tempi)
  have "\<forall>k < length tempi. slider_position (tempi ! k) = int k"
    using slider_position_nearest_at_or_above [of 63 ?s] by blast
  then have "slider_position (tempi ! 11) = int 11"
    by (simp add: length_tempi)
  then have p63: "slider_position 63 = 11"
    using t by simp
  have u: "map_sum id slider_value (update_tempo ?s) = Inr 38"
    using slider_position_nearest_at_or_above [of 250 ?s] r m by (auto simp: length_tempi)
  from t r m p61 p250 p63 u show ?thesis by simp
qed

subsection \<open>The invariant of the tempo and the change of mode\<close>

text \<open>
  C5. In every state reached from the initial one (tempo 40, the first entry of the table, in
  Maelzel mode) by any sequence of events, the tempo is an entry of the table, hence between 40
  and 208, when the mode is Maelzel, and it is between 20 and 300 when the mode is Precise; it
  is positive, and the start/stop slot does not raise: its division has a non-zero divisor.
\<close>

theorem tempo_invariant:
  assumes "reachable s"
  shows "(\<exists>s0. metronome_init = Inr s0 \<and> current_tempo s0 = 40 \<and> mode s0 = Maelzel
            \<and> py_getitem tempi 0 = Inr 40)
    \<and> (mode s = Maelzel \<longrightarrow>
          current_tempo s \<in> set tempi \<and> 40 \<le> current_tempo s \<and> current_tempo s \<le> 208)
    \<and> (mode s = Precise \<longrightarrow> 20 \<le> current_tempo s \<and> current_tempo s \<le> 300)
    \<and> 0 < current_tempo s
    \<and> (\<exists>s'. start_stop_metronome s = Inr s')"
proof -
  have c: "consistent s" using assms by (rule reachable_consistent)
  note ct = consistent_tempo [OF c]
  have i: "\<exists>s0. metronome_init = Inr s0 \<and> current_tempo s0 = 40 \<and> mode s0 = Maelzel
            \<and> py_getitem tempi 0 = Inr 40"
    by (simp add: metronome_init_eq py_getitem_def length_tempi tempi_first)
  have m: "mode s = Maelzel \<longrightarrow>
          current_tempo s \<in> set tempi \<and> 40 \<le> current_tempo s \<and> current_tempo s \<le> 208"
    using ct(2) tempi_bounds [of "current_tempo s"] by blast
  have p: "mode s = Precise \<longrightarrow> 20 \<le> current_tempo s \<and> current_tempo s \<le> 300"
    using ct(6,7) by simp
  have z: "0 < current_tempo s" using ct(6) by simp
  have g: "\<exists>s'. start_stop_metronome s = Inr s'"
    using start_stop_consistent [OF c] by blast
  from i m p z g show ?thesis by blast
qed

text \<open>
  C3. In a reachable state, switching from Maelzel to Precise keeps the tempo; switching from
  Precise to Maelzel sets the tempo to the table entry at the slider position for the old
  tempo; switching twice from Maelzel mode gives that entry for the tempo before, which is
  the tempo before itself, and switching twice more changes nothing; and after a switch from
  Precise mode, two more switches give the same tempo again.
\<close>

theorem mode_round_trip:
  assumes "reachable s"
  shows "(mode s = Maelzel \<longrightarrow>
            (\<exists>s1. switch_mode s = Inr s1 \<and> mode s1 = Precise
               \<and> current_tempo s1 = current_tempo s))
    \<and> (mode s = Precise \<longrightarrow>
          (\<exists>s1 s2 s3. switch_mode s = Inr s1 \<and> mode s1 = Maelzel
             \<and> current_tempo s1 = tempi ! nat (slider_position (current_tempo s))
             \<and> switch_mode s1 = Inr s2 \<and> switch_mode s2 = Inr s3
             \<and> mode s3 = Maelzel \<and> current_tempo s3 = current_tempo s1))
    \<and> (mode s = Maelzel \<longrightarrow>
          (\<exists>s1 s2 s3 s4. switch_mode s = Inr s1 \<and> switch_mode s1 = Inr s2
             \<and> mode s2 = Maelzel
             \<and> current_tempo s2 = tempi ! nat (slider_position (current_tempo s))
             \<and> current_tempo s2 = current_tempo s
             \<and> switch_mode s2 = Inr s3 \<and> switch_mode s3 = Inr s4
             \<and> mode s4 = Maelzel \<and> current_tempo s4 = current_tempo s2))"
proof -
  have c: "consistent s" using assms by (rule reachable_consistent)
  have double: "\<exists>s1 s2. switch_mode u = Inr s1 \<and> switch_mode s1 = Inr s2 \<and> consistent s2
      \<and> mode s1 = Precise \<and> current_tempo s1 = current_tempo u
      \<and> mode s2 = Maelzel \<and> current_tempo s2 = current_tempo u
      \<and> current_tempo s2 = tempi ! nat (slider_position (current_tempo u))"
    if u: "consistent u" "mode u = Maelzel" for u
  proof -
    obtain s1 where s1: "switch_mode u = Inr s1" "consistent s1" "mode s1 = Precise"
      "current_tempo s1 = current_tempo u"
      using switch_mode_consistent [OF u(1)] u(2) by auto
    obtain s2 where s2: "switch_mode s1 = Inr s2" "consistent s2" "mode s2 = Maelzel"
      "current_tempo s2 = tempi ! nat (slider_position (current_tempo s1))"
      using switch_mode_consistent [OF s1(2)] s1(3) by auto
    from s1 s2 slider_position_on_table [OF u] show ?thesis by simp
  qed
  have a: "mode s = Maelzel \<longrightarrow>
            (\<exists>s1. switch_mode s = Inr s1 \<and> mode s1 = Precise
               \<and> current_tempo s1 = current_tempo s)"
    using switch_mode_consistent [OF c] by auto
  have b: "mode s = Precise \<longrightarrow>
          (\<exists>s1 s2 s3. switch_mode s = Inr s1 \<and> mode s1 = Maelzel
             \<and> current_tempo s1 = tempi ! nat (slider_position (current_tempo s))
             \<and> switch_mode s1 = Inr s2 \<and> switch_mode s2 = Inr s3
             \<and> mode s3 = Maelzel \<and> current_tempo s3 = current_tempo s1)"
  proof
    assume p: "mode s = Precise"
    obtain s1 where s1: "switch_mode s = Inr s1" "consistent s1" "mode s1 = Maelzel"
      "current_tempo s1 = tempi ! nat (slider_position (current_tempo s))"
      using switch_mode_consistent [OF c] p by auto
    from double [OF s1(2,3)] s1 show "\<exists>s1 s2 s3. switch_mode s = Inr s1 \<and> mode s1 = Maelzel
             \<and> current_tempo s1 = tempi ! nat (slider_position (current_tempo s))
             \<and> switch_mode s1 = Inr s2 \<and> switch_mode s2 = Inr s3
             \<and> mode s3 = Maelzel \<and> current_tempo s3 = current_tempo s1"
      by auto
  qed
  have d: "mode s = Maelzel \<longrightarrow>
          (\<exists>s1 s2 s3 s4. switch_mode s = Inr s1 \<and> switch_mode s1 = Inr s2
             \<and> mode s2 = Maelzel
             \<and> current_tempo s2 = tempi ! nat (slider_position (current_tempo s))
             \<and> current_tempo s2 = current_tempo s
             \<and> switch_mode s2 = Inr s3 \<and> switch_mode s3 = Inr s4
             \<and> mode s4 = Maelzel \<and> current_tempo s4 = current_tempo s2)"
  proof
    assume m: "mode s = Maelzel"
    obtain s1 s2 where s12: "switch_mode s = Inr s1" "switch_mode s1 = Inr s2" "consistent s2"
      "mode s2 = Maelzel" "current_tempo s2 = current_tempo s"
      "current_tempo s2 = tempi ! nat (slider_position (current_tempo s))"
      using double [OF c m] by auto
    obtain s3 s4 where s34: "switch_mode s2 = Inr s3" "switch_mode s3 = Inr s4"
      "mode s4 = Maelzel" "current_tempo s4 = current_tempo s2"
      using double [OF s12(3,4)] by auto
    from s12 s34 show "\<exists>s1 s2 s3 s4. switch_mode s = Inr s1 \<and> switch_mode s1 = Inr s2
             \<and> mode s2 = Maelzel
             \<and> current_tempo s2 = tempi ! nat (slider_position (current_tempo s))
             \<and> current_tempo s2 = current_tempo s
             \<and> switch_mode s2 = Inr s3 \<and> switch_mode s3 = Inr s4
             \<and> mode s4 = Maelzel \<and> current_tempo s4 = current_tempo s2"
      by auto
  qed
  from a b d show ?thesis by blast
qed

subsection \<open>Concrete runs\<close>

lemmas eval_simps = metronome_init_eq switch_mode_def update_tempo.simps slider_setValue.simps
  tempo_read_def py_int_def strip_def is_space_def parse_number_def decimal_def decimal_zeros_def codes_def
  py_str_def dec_digits.simps digit_char_def bisect_left_def bisect_left_loop.simps tempi_eq
  qBound_def get_marking_def py_getitem_def Let_def fixup_def fixup_run_def
  tempo_input_validator_def fixup_loop.simps start_stop_metronome_def start_branch_def stop_branch_def

lemma precise_40_reachable:
  "reachable \<lparr>current_tempo = 40, playing = False, mode = Precise, slider_minimum = 0,
     slider_maximum = 38, slider_value = 0, slider_enabled = False, slider_visible = False,
     tempo_input_text = codes ''40'', tempo_input_enabled = True, tempo_input_visible = True,
     tempo_indicator = codes ''40'', traditional_marking = ''Grave'',
     mode_indicator = ''Mode: Precise tempo'', start_stop_button = ''Start'',
     timer_update_interval = 40, timer_running = False\<rparr>"
proof -
  let ?i = "projr metronome_init"
  have "reachable ?i"
    by (rule reachable_init) (simp add: metronome_init_eq)
  moreover have "fire SwitchMode ?i = Some (Inr \<lparr>current_tempo = 40, playing = False,
     mode = Precise, slider_minimum = 0,
     slider_maximum = 38, slider_value = 0, slider_enabled = False, slider_visible = False,
     tempo_input_text = codes ''40'', tempo_input_enabled = True, tempo_input_visible = True,
     tempo_indicator = codes ''40'', traditional_marking = ''Grave'',
     mode_indicator = ''Mode: Precise tempo'', start_stop_button = ''Start'',
     timer_update_interval = 40, timer_running = False\<rparr>)"
    by (simp add: eval_simps)
  ultimately show ?thesis by (rule reachable_fire)
qed

lemma precise_61_reachable:
  "reachable \<lparr>current_tempo = 61, playing = False, mode = Precise, slider_minimum = 0,
     slider_maximum = 38, slider_value = 11, slider_enabled = False, slider_visible = False,
     tempo_input_text = codes ''61'', tempo_input_enabled = True, tempo_input_visible = True,
     tempo_indicator = codes ''61'', traditional_marking = ''Largetto'',
     mode_indicator = ''Mode: Precise tempo'', start_stop_button = ''Start'',
     timer_update_interval = 40, timer_running = False\<rparr>"
proof -
  let ?p = "\<lparr>current_tempo = 40, playing = False, mode = Precise, slider_minimum = 0,
     slider_maximum = 38, slider_value = 0, slider_enabled = False, slider_visible = False,
     tempo_input_text = codes ''40'', tempo_input_enabled = True, tempo_input_visible = True,
     tempo_indicator = codes ''40'', traditional_marking = ''Grave'',
     mode_indicator = ''Mode: Precise tempo'', start_stop_button = ''Start'',
     timer_update_interval = 40, timer_running = False\<rparr>"
  have "fire (EditingFinished (codes ''61'')) ?p = Some (Inr \<lparr>current_tempo = 61,
     playing = False, mode = Precise, slider_minimum = 0,
     slider_maximum = 38, slider_value = 11, slider_enabled = False, slider_visible = False,
     tempo_input_text = codes ''61'', tempo_input_enabled = True, tempo_input_visible = True,
     tempo_indicator = codes ''61'', traditional_marking = ''Largetto'',
     mode_indicator = ''Mode: Precise tempo'', start_stop_button = ''Start'',
     timer_update_interval = 40, timer_running = False\<rparr>)"
    by (simp add: eval_simps)
  with precise_40_reachable show ?thesis by (rule reachable_fire)
qed

theorem tempo_invariant_witness:
  "reachable (projr metronome_init)
   \<and> mode (projr metronome_init) = Maelzel
   \<and> current_tempo (projr metronome_init) \<in> set tempi
   \<and> reachable \<lparr>current_tempo = 61, playing = False, mode = Precise, slider_minimum = 0,
       slider_maximum = 38, slider_value = 11, slider_enabled = False, slider_visible = False,
       tempo_input_text = codes ''61'', tempo_input_enabled = True, tempo_input_visible = True,
       tempo_indicator = codes ''61'', traditional_marking = ''Largetto'',
       mode_indicator = ''Mode: Precise tempo'', start_stop_button = ''Start'',
       timer_update_interval = 40, timer_running = False\<rparr>
   \<and> (\<exists>s'. start_stop_metronome \<lparr>current_tempo = 61, playing = False, mode = Precise,
       slider_minimum = 0,
       slider_maximum = 38, slider_value = 11, slider_enabled = False, slider_visible = False,
       tempo_input_text = codes ''61'', tempo_input_enabled = True, tempo_input_visible = True,
       tempo_indicator = codes ''61'', traditional_marking = ''Largetto'',
       mode_indicator = ''Mode: Precise tempo'', start_stop_button = ''Start'',
       timer_update_interval = 40, timer_running = False\<rparr> = Inr s')"
proof -
  have r: "reachable (projr metronome_init)"
    by (rule reachable_init) (simp add: metronome_init_eq)
  have m: "mode (projr metronome_init) = Maelzel" by (simp add: metronome_init_eq)
  from tempo_invariant [OF r] tempo_invariant [OF precise_61_reachable] r m precise_61_reachable
  show ?thesis by simp
qed

theorem mode_round_trip_witness:
  "reachable \<lparr>current_tempo = 61, playing = False, mode = Precise, slider_minimum = 0,
     slider_maximum = 38, slider_value = 11, slider_enabled = False, slider_visible = False,
     tempo_input_text = codes ''61'', tempo_input_enabled = True, tempo_input_visible = True,
     tempo_indicator = codes ''61'', traditional_marking = ''Largetto'',
     mode_indicator = ''Mode: Precise tempo'', start_stop_button = ''Start'',
     timer_update_interval = 40, timer_running = False\<rparr>
   \<and> tempi ! nat (slider_position 61) = 63
   \<and> (\<exists>s1 s2 s3. switch_mode \<lparr>current_tempo = 61, playing = False, mode = Precise,
         slider_minimum = 0,
         slider_maximum = 38, slider_value = 11, slider_enabled = False, slider_visible = False,
         tempo_input_text = codes ''61'', tempo_input_enabled = True, tempo_input_visible = True,
         tempo_indicator = codes ''61'', traditional_marking = ''Largetto'',
         mode_indicator = ''Mode: Precise tempo'', start_stop_button = ''Start'',
         timer_update_interval = 40, timer_running = False\<rparr> = Inr s1
        \<and> mode s1 = Maelzel \<and> current_tempo s1 = 63
        \<and> switch_mode s1 = Inr s2 \<and> switch_mode s2 = Inr s3 \<and> current_tempo s3 = 63)"
proof -
  have p: "tempi ! nat (slider_position 61) = 63"
    by (simp add: slider_position_def eval_simps)
  from mode_round_trip [OF precise_61_reachable] precise_61_reachable p
  show ?thesis by (simp only: metronome.simps mode.simps simp_thms) metis
qed

theorem interval_fixed_while_playing_witness:
  "playing \<lparr>current_tempo = 40, playing = True, mode = Precise, slider_minimum = 0,
     slider_maximum = 38, slider_value = 0, slider_enabled = False, slider_visible = False,
     tempo_input_text = codes ''40'', tempo_input_enabled = True, tempo_input_visible = True,
     tempo_indicator = codes ''40'', traditional_marking = ''Grave'',
     mode_indicator = ''Mode: Precise tempo'', start_stop_button = ''Stop'',
     timer_update_interval = 1500, timer_running = True\<rparr>
   \<and> EditingFinished (codes ''120'') \<noteq> StartStop
   \<and> fire (EditingFinished (codes ''120''))
       \<lparr>current_tempo = 40, playing = True, mode = Precise, slider_minimum = 0,
        slider_maximum = 38, slider_value = 0, slider_enabled = False, slider_visible = False,
        tempo_input_text = codes ''40'', tempo_input_enabled = True, tempo_input_visible = True,
        tempo_indicator = codes ''40'', traditional_marking = ''Grave'',
        mode_indicator = ''Mode: Precise tempo'', start_stop_button = ''Stop'',
        timer_update_interval = 1500, timer_running = True\<rparr>
     = Some (Inr \<lparr>current_tempo = 120, playing = True, mode = Precise, slider_minimum = 0,
        slider_maximum = 38, slider_value = 26, slider_enabled = False, slider_visible = False,
        tempo_input_text = codes ''120'', tempo_input_enabled = True, tempo_input_visible = True,
        tempo_indicator = codes ''120'', traditional_marking = ''Moderato'',
        mode_indicator = ''Mode: Precise tempo'', start_stop_button = ''Stop'',
        timer_update_interval = 1500, timer_running = True\<rparr>)
   \<and> (\<exists>s1 s2. start_stop_metronome \<lparr>current_tempo = 120, playing = True, mode = Precise,
        slider_minimum = 0,
        slider_maximum = 38, slider_value = 26, slider_enabled = False, slider_visible = False,
        tempo_input_text = codes ''120'', tempo_input_enabled = True, tempo_input_visible = True,
        tempo_indicator = codes ''120'', traditional_marking = ''Moderato'',
        mode_indicator = ''Mode: Precise tempo'', start_stop_button = ''Stop'',
        timer_update_interval = 1500, timer_running = True\<rparr> = Inr s1
       \<and> timer_update_interval s1 = 1500
       \<and> start_stop_metronome s1 = Inr s2 \<and> timer_update_interval s2 = 500)"
proof -
  let ?s = "\<lparr>current_tempo = 40, playing = True, mode = Precise, slider_minimum = 0,
     slider_maximum = 38, slider_value = 0, slider_enabled = False, slider_visible = False,
     tempo_input_text = codes ''40'', tempo_input_enabled = True, tempo_input_visible = True,
     tempo_indicator = codes ''40'', traditional_marking = ''Grave'',
     mode_indicator = ''Mode: Precise tempo'', start_stop_button = ''Stop'',
     timer_update_interval = 1500, timer_running = True\<rparr>"
  let ?s' = "\<lparr>current_tempo = 120, playing = True, mode = Precise, slider_minimum = 0,
        slider_maximum = 38, slider_value = 26, slider_enabled = False, slider_visible = False,
        tempo_input_text = codes ''120'', tempo_input_enabled = True, tempo_input_visible = True,
        tempo_indicator = codes ''120'', traditional_marking = ''Moderato'',
        mode_indicator = ''Mode: Precise tempo'', start_stop_button = ''Stop'',
        timer_update_interval = 1500, timer_running = True\<rparr>"
  have f: "fire (EditingFinished (codes ''120'')) ?s = Some (Inr ?s')"
    by (simp add: eval_simps)
  have g: "\<exists>s1 s2. start_stop_metronome ?s' = Inr s1 \<and> timer_update_interval s1 = 1500
       \<and> start_stop_metronome s1 = Inr s2 \<and> timer_update_interval s2 = 500"
    using interval_fixed_while_playing [of ?s' "EditingFinished (codes ''120'')" ?s'] by auto
  have h: "timer_update_interval ?s' = timer_update_interval ?s \<and> playing ?s'"
    using interval_fixed_while_playing [of ?s "EditingFinished (codes ''120'')" ?s'] f by simp
  from f g h show ?thesis by simp
qed

subsection \<open>The playback toggle\<close>

lemma stop_branch_idem: "stop_branch (stop_branch s) = stop_branch s"
  by (simp add: stop_branch_def)

lemma stop_branch_stopped: "\<not> playing (stop_branch s)" "\<not> timer_running (stop_branch s)"
  by (simp_all add: stop_branch_def)

lemma start_branch_running:
  assumes "current_tempo s \<noteq> 0"
  shows "\<exists>s1. start_branch s = Inr s1 \<and> playing s1 \<and> timer_running s1
    \<and> current_tempo s1 = current_tempo s"
  using assms by (simp add: start_branch_def)

text \<open>
  C9. The controller starts stopped. The button's slot is a start while stopped and a stop
  while playing. The start sets \<open>playing\<close> and starts the timer (it can only fail on a zero
  tempo, which no reachable state has); the stop clears \<open>playing\<close> and stops the timer; a
  start followed by a stop is stopped again. The stop done twice in a row gives what the stop
  done once gives, without an error: the second is a no-op, and the outcome is a function of
  the state. The slot itself never runs the stop while stopped.
\<close>

theorem playback_state_machine:
  "(\<exists>s0. metronome_init = Inr s0 \<and> \<not> playing s0 \<and> \<not> timer_running s0)
   \<and> (\<not> playing s \<longrightarrow> start_stop_metronome s = start_branch s)
   \<and> (playing s \<longrightarrow> start_stop_metronome s = Inr (stop_branch s))
   \<and> (current_tempo s \<noteq> 0 \<longrightarrow>
        (\<exists>s1. start_branch s = Inr s1 \<and> playing s1 \<and> timer_running s1
           \<and> start_stop_metronome s1 = Inr (stop_branch s1)))
   \<and> \<not> playing (stop_branch s) \<and> \<not> timer_running (stop_branch s)
   \<and> stop_branch (stop_branch s) = stop_branch s
   \<and> (\<not> playing s \<and> current_tempo s \<noteq> 0 \<longrightarrow>
        (\<exists>s1 s2. start_stop_metronome s = Inr s1 \<and> playing s1 \<and> timer_running s1
           \<and> start_stop_metronome s1 = Inr s2 \<and> \<not> playing s2 \<and> \<not> timer_running s2
           \<and> stop_branch s2 = s2))
   \<and> (reachable s \<longrightarrow> (\<exists>s1. start_branch s = Inr s1 \<and> playing s1 \<and> timer_running s1))"
proof -
  have a: "\<exists>s0. metronome_init = Inr s0 \<and> \<not> playing s0 \<and> \<not> timer_running s0"
    by (simp add: metronome_init_eq)
  have b: "\<not> playing s \<longrightarrow> start_stop_metronome s = start_branch s"
    by (simp add: start_stop_metronome_def)
  have c: "playing s \<longrightarrow> start_stop_metronome s = Inr (stop_branch s)"
    by (simp add: start_stop_metronome_def)
  have d: "current_tempo s \<noteq> 0 \<longrightarrow>
        (\<exists>s1. start_branch s = Inr s1 \<and> playing s1 \<and> timer_running s1
           \<and> start_stop_metronome s1 = Inr (stop_branch s1))"
    by (simp add: start_branch_def start_stop_metronome_def)
  have e: "\<not> playing (stop_branch s) \<and> \<not> timer_running (stop_branch s)"
    by (simp add: stop_branch_stopped)
  have f: "stop_branch (stop_branch s) = stop_branch s"
    by (rule stop_branch_idem)
  have g: "\<not> playing s \<and> current_tempo s \<noteq> 0 \<longrightarrow>
        (\<exists>s1 s2. start_stop_metronome s = Inr s1 \<and> playing s1 \<and> timer_running s1
           \<and> start_stop_metronome s1 = Inr s2 \<and> \<not> playing s2 \<and> \<not> timer_running s2
           \<and> stop_branch s2 = s2)"
    by (simp add: start_branch_def stop_branch_def start_stop_metronome_def)
  have h: "reachable s \<longrightarrow> (\<exists>s1. start_branch s = Inr s1 \<and> playing s1 \<and> timer_running s1)"
  proof
    assume "reachable s"
    then have "consistent s" by (rule reachable_consistent)
    then have "current_tempo s \<noteq> 0" using consistent_tempo(6) [of s] by simp
    from start_branch_running [OF this]
    show "\<exists>s1. start_branch s = Inr s1 \<and> playing s1 \<and> timer_running s1" by blast
  qed
  from a b c d e f g h show ?thesis by blast
qed

theorem playback_state_machine_witness:
  "\<not> playing (projr metronome_init) \<and> current_tempo (projr metronome_init) \<noteq> 0
   \<and> reachable (projr metronome_init)
   \<and> (\<exists>s1 s2. start_stop_metronome (projr metronome_init) = Inr s1 \<and> playing s1
        \<and> timer_running s1 \<and> timer_update_interval s1 = 1500
        \<and> start_stop_metronome s1 = Inr s2 \<and> \<not> playing s2 \<and> \<not> timer_running s2
        \<and> stop_branch s2 = s2)
   \<and> playing (projr (start_stop_metronome (projr metronome_init)))
   \<and> start_stop_metronome (projr (start_stop_metronome (projr metronome_init)))
       = Inr (stop_branch (projr (start_stop_metronome (projr metronome_init))))"
proof -
  let ?i = "projr metronome_init"
  let ?r = "projr (start_stop_metronome ?i)"
  have h: "\<not> playing ?i" "current_tempo ?i \<noteq> 0" "playing ?r"
    by (simp_all add: metronome_init_eq start_stop_metronome_def start_branch_def)
  have r: "reachable ?i"
    by (rule reachable_init) (simp add: metronome_init_eq)
  have i: "start_stop_metronome ?i = Inr ?r"
    by (simp add: metronome_init_eq start_stop_metronome_def start_branch_def)
  have t: "timer_update_interval ?r = 1500"
    by (simp add: metronome_init_eq start_stop_metronome_def start_branch_def)
  have 1: "\<exists>s1 s2. start_stop_metronome ?i = Inr s1 \<and> playing s1 \<and> timer_running s1
        \<and> start_stop_metronome s1 = Inr s2 \<and> \<not> playing s2 \<and> \<not> timer_running s2
        \<and> stop_branch s2 = s2"
    using playback_state_machine [of ?i] h(1,2) by blast
  then have 3: "\<exists>s1 s2. start_stop_metronome ?i = Inr s1 \<and> playing s1 \<and> timer_running s1
        \<and> timer_update_interval s1 = 1500
        \<and> start_stop_metronome s1 = Inr s2 \<and> \<not> playing s2 \<and> \<not> timer_running s2
        \<and> stop_branch s2 = s2"
    using i t by auto
  have 2: "start_stop_metronome ?r = Inr (stop_branch ?r)"
    using playback_state_machine [of ?r] h(3) by blast
  from h r 3 2 show ?thesis by blast
qed

subsection \<open>An edit finished on an empty line edit\<close>

lemma update_tempo_text_nonempty:
  assumes "update_tempo s = Inr s'" "tempo_input_text s \<noteq> []"
  shows "tempo_input_text s' \<noteq> []"
proof (cases "mode s")
  case Maelzel
  show ?thesis
  proof (cases "py_getitem tempi (slider_value s)")
    case (Inl e)
    with assms update_tempo_maelzel_error [OF Maelzel Inl] show ?thesis by simp
  next
    case (Inr v)
    with assms update_tempo_maelzel [OF Maelzel Inr] show ?thesis
      by (auto simp: py_str_nonempty)
  qed
next
  case Precise
  show ?thesis
  proof (cases "tempo_read s")
    case (Inl e)
    with assms update_tempo_precise_error [OF Precise Inl] show ?thesis by simp
  next
    case (Inr v)
    with assms update_tempo_precise [OF Precise Inr] show ?thesis by auto
  qed
qed

lemma fire_text_nonempty:
  assumes "fire e s = Some (Inr s')" "tempo_input_text s \<noteq> []"
  shows "tempo_input_text s' \<noteq> []"
proof (cases e)
  case SwitchMode
  let ?m = "case mode s of
      Maelzel \<Rightarrow> s\<lparr>mode := Precise, tempo_input_visible := True, tempo_input_enabled := True,
                    slider_enabled := False, slider_visible := False\<rparr>
    | Precise \<Rightarrow> s\<lparr>mode := Maelzel, tempo_input_visible := False, tempo_input_enabled := False,
                    slider_enabled := True, slider_visible := True\<rparr>"
  from assms(1) SwitchMode obtain u where u: "update_tempo ?m = Inr u"
    and s': "s' = u\<lparr>mode_indicator := ''Mode: '' @ mode_str (mode u)\<rparr>"
    by (auto simp: switch_mode_def split: sum.splits)
  have "tempo_input_text ?m \<noteq> []" using assms(2) by (simp split: mode.splits)
  from update_tempo_text_nonempty [OF u this] s' show ?thesis by simp
next
  case (SliderMoved i)
  let ?w = "qBound (slider_minimum s) i (slider_maximum s)"
  from assms(1) SliderMoved have "s' = s \<or> update_tempo (s\<lparr>slider_value := ?w\<rparr>) = Inr s'"
    by (simp add: slider_setValue.simps Let_def split: if_splits)
  then show ?thesis
    using update_tempo_text_nonempty [of "s\<lparr>slider_value := ?w\<rparr>" s'] assms(2) by auto
next
  case (EditingFinished r)
  with assms(1) obtain t where t: "fixup tempo_input_validator r = Some (Inr t)"
    "update_tempo (s\<lparr>tempo_input_text := t\<rparr>) = Inr s'"
    by (auto split: option.splits sum.splits)
  obtain m where "py_int t = Inr m"
    using fixup_result [OF t(1)] by (auto simp: tempo_input_validator_def)
  then have "t \<noteq> []" by (rule py_int_nonempty)
  with update_tempo_text_nonempty [OF t(2)] show ?thesis by simp
next
  case StartStop
  with assms show ?thesis
    by (auto simp: start_stop_metronome_def start_branch_def stop_branch_def split: if_splits)
qed

lemma reachable_text_nonempty: "reachable s \<Longrightarrow> tempo_input_text s \<noteq> []"
proof (induction rule: reachable.induct)
  case (reachable_init s)
  then show ?case by (auto simp: metronome_init_eq codes_def)
next
  case (reachable_fire s e s')
  then show ?case using fire_text_nonempty by blast
qed

lemma editing_finished_empty:
  assumes "consistent s" "mode s = Precise"
  shows "\<exists>s'. fire (EditingFinished []) s = Some (Inr s') \<and> mode s' = Precise
    \<and> current_tempo s' = 20 \<and> tempo_input_text s' = codes ''20''"
proof -
  note sl = consistent_slider [OF assms(1)]
  have f: "fixup tempo_input_validator [] = Some (Inr (codes ''20''))"
    using fixup_run_empty [of tempo_input_validator]
    by (simp add: fixup_def tempo_input_validator_def py_str_20)
  have r: "tempo_read (s\<lparr>tempo_input_text := codes ''20''\<rparr>) = Inr 20"
    using py_int_py_str [of 20] py_str_nonempty [of 20] by (simp add: tempo_read_def py_str_20)
  have u: "update_tempo (s\<lparr>tempo_input_text := codes ''20''\<rparr>) =
    Inr (s\<lparr>tempo_input_text := codes ''20'', current_tempo := 20,
           slider_value := qBound (slider_minimum s) (int (bisect_left tempi 20)) (slider_maximum s),
           tempo_indicator := py_str 20,
           traditional_marking := get_marking (s\<lparr>current_tempo := 20\<rparr>)\<rparr>)"
    using update_tempo_precise [of "s\<lparr>tempo_input_text := codes ''20''\<rparr>" 20] assms(2) r
    by (simp add: get_marking_def)
  show ?thesis using f u assms(2) by simp
qed

text \<open>
  C7, as the code has it. In a reachable state in Precise mode, an edit finished on an empty
  line edit sets the tempo to 20, the validator's lower bound: the validator's repair puts
  \<open>''20''\<close> in place of the empty text before the tempo slot runs. The slot's own branch for
  an empty text, which would give the first table entry 40, is not taken: the line edit of a
  reachable state is never empty, and neither is a repaired text.
\<close>

theorem empty_edit_sets_lower_bound:
  assumes "reachable s" "mode s = Precise"
  shows "tempo_input_text s \<noteq> []
    \<and> fixup tempo_input_validator [] = Some (Inr (codes ''20''))
    \<and> (\<forall>r t. fixup tempo_input_validator r = Some (Inr t) \<longrightarrow> t \<noteq> [])
    \<and> (\<exists>s'. fire (EditingFinished []) s = Some (Inr s') \<and> mode s' = Precise
          \<and> current_tempo s' = 20 \<and> tempo_input_text s' = codes ''20'')"
proof -
  have c: "consistent s" using assms(1) by (rule reachable_consistent)
  have a: "tempo_input_text s \<noteq> []" using assms(1) by (rule reachable_text_nonempty)
  have f: "fixup tempo_input_validator [] = Some (Inr (codes ''20''))"
    using fixup_run_empty [of tempo_input_validator]
    by (simp add: fixup_def tempo_input_validator_def py_str_20)
  have n: "\<forall>r t. fixup tempo_input_validator r = Some (Inr t) \<longrightarrow> t \<noteq> []"
  proof (intro allI impI)
    fix r t
    assume "fixup tempo_input_validator r = Some (Inr t)"
    from fixup_result [OF this] obtain m where "py_int t = Inr m"
      by (auto simp: tempo_input_validator_def)
    then show "t \<noteq> []" by (rule py_int_nonempty)
  qed
  from a f n editing_finished_empty [OF c assms(2)] show ?thesis by blast
qed

theorem empty_edit_sets_lower_bound_witness:
  "reachable \<lparr>current_tempo = 40, playing = False, mode = Precise, slider_minimum = 0,
     slider_maximum = 38, slider_value = 0, slider_enabled = False, slider_visible = False,
     tempo_input_text = codes ''40'', tempo_input_enabled = True, tempo_input_visible = True,
     tempo_indicator = codes ''40'', traditional_marking = ''Grave'',
     mode_indicator = ''Mode: Precise tempo'', start_stop_button = ''Start'',
     timer_update_interval = 40, timer_running = False\<rparr>
   \<and> (\<exists>s'. fire (EditingFinished [])
        \<lparr>current_tempo = 40, playing = False, mode = Precise, slider_minimum = 0,
         slider_maximum = 38, slider_value = 0, slider_enabled = False, slider_visible = False,
         tempo_input_text = codes ''40'', tempo_input_enabled = True, tempo_input_visible = True,
         tempo_indicator = codes ''40'', traditional_marking = ''Grave'',
         mode_indicator = ''Mode: Precise tempo'', start_stop_button = ''Start'',
         timer_update_interval = 40, timer_running = False\<rparr> = Some (Inr s')
        \<and> current_tempo s' = 20)"
proof -
  from empty_edit_sets_lower_bound [OF precise_40_reachable] precise_40_reachable
  show ?thesis by auto
qed

text \<open>
  C7, as the claim states it, does not hold: from the initial state, a switch to Precise mode
  and an edit finished on an empty line edit leave the tempo at 20, not at 40.
\<close>

theorem empty_edit_from_initial_state:
  "map_option (map_sum id mode) (run [SwitchMode] (projr metronome_init)) = Some (Inr Precise)
   \<and> map_option (map_sum id current_tempo)
        (run [SwitchMode, EditingFinished []] (projr metronome_init)) = Some (Inr 20)
   \<and> map_option (map_sum id current_tempo)
        (run [SwitchMode, EditingFinished []] (projr metronome_init)) \<noteq> Some (Inr 40)"
  by (simp add: eval_simps)

end
